theory Spec2Isabelle
  imports Main "HOL-Library.Char_ord" "HOL-Library.List_Lexorder"
begin

section \<open>Calendar dates\<close>

text \<open>
  The program computes with the values of Python's \<^verbatim>\<open>datetime.date\<close>. A date is
  a record of its three attributes; the functions below follow the proleptic Gregorian
  arithmetic of the \<^verbatim>\<open>datetime\<close> module (\<^verbatim>\<open>_is_leap\<close>, \<^verbatim>\<open>_days_in_month\<close>,
  \<^verbatim>\<open>_days_before_year\<close>, \<^verbatim>\<open>_days_before_month\<close>, \<^verbatim>\<open>_ymd2ord\<close>, \<^verbatim>\<open>_ord2ymd\<close>).
  Python integers are unbounded, so every number is an \<^typ>\<open>int\<close>; Python's floor
  division on a positive divisor is HOL's \<open>div\<close> on \<^typ>\<open>int\<close>.
\<close>

datatype error = ValueError

record date =
  year :: int
  month :: int
  day :: int

definition is_leap :: "int \<Rightarrow> bool" where
  "is_leap y = (y mod 4 = 0 \<and> (y mod 100 \<noteq> 0 \<or> y mod 400 = 0))"

definition days_in_month :: "int \<Rightarrow> int \<Rightarrow> int" where
  "days_in_month y m =
     (if m = 2 then (if is_leap y then 29 else 28)
      else if m = 4 \<or> m = 6 \<or> m = 9 \<or> m = 11 then 30 else 31)"

definition days_before_year :: "int \<Rightarrow> int" where
  "days_before_year y =
     (let p = y - 1 in p * 365 + p div 4 - p div 100 + p div 400)"

text \<open>The table \<^verbatim>\<open>_DAYS_BEFORE_MONTH\<close>, indexed by the month number.\<close>

definition DAYS_BEFORE_MONTH :: "int \<Rightarrow> int" where
  "DAYS_BEFORE_MONTH m =
     (if m = 1 then 0 else if m = 2 then 31 else if m = 3 then 59
      else if m = 4 then 90 else if m = 5 then 120 else if m = 6 then 151
      else if m = 7 then 181 else if m = 8 then 212 else if m = 9 then 243
      else if m = 10 then 273 else if m = 11 then 304 else 334)"

text \<open>The table \<^verbatim>\<open>_DAYS_IN_MONTH\<close> (February counted with 28 days).\<close>

definition DAYS_IN_MONTH :: "int \<Rightarrow> int" where
  "DAYS_IN_MONTH m =
     (if m = 2 then 28
      else if m = 4 \<or> m = 6 \<or> m = 9 \<or> m = 11 then 30 else 31)"

definition days_before_month :: "int \<Rightarrow> int \<Rightarrow> int" where
  "days_before_month y m =
     DAYS_BEFORE_MONTH m + (if m > 2 \<and> is_leap y then 1 else 0)"

definition ymd2ord :: "int \<Rightarrow> int \<Rightarrow> int \<Rightarrow> int" where
  "ymd2ord y m d = days_before_year y + days_before_month y m + d"

definition toordinal :: "date \<Rightarrow> int" where
  "toordinal d = ymd2ord (year d) (month d) (day d)"

text \<open>
  \<^verbatim>\<open>_ord2ymd\<close>: the ordinal is split into 400-year, 100-year and 4-year cycles and
  single years; the month is estimated by a shift and corrected when too large.
\<close>

definition ord2ymd :: "int \<Rightarrow> int \<times> int \<times> int" where
  "ord2ymd n0 =
     (let n = n0 - 1;
          n400 = n div 146097; n = n mod 146097;
          n100 = n div 36524; n = n mod 36524;
          n4 = n div 1461; n = n mod 1461;
          n1 = n div 365; n = n mod 365;
          y = n400 * 400 + 1 + n100 * 100 + n4 * 4 + n1
      in if n1 = 4 \<or> n100 = 4 then (y - 1, 12, 31)
         else
           let leapyear = (n1 = 3 \<and> (n4 \<noteq> 24 \<or> n100 = 3));
               m = (n + 50) div 32;
               preceding = DAYS_BEFORE_MONTH m + (if m > 2 \<and> leapyear then 1 else 0)
           in if preceding > n
              then (y, m - 1,
                    n - (preceding - (DAYS_IN_MONTH (m - 1)
                                      + (if m - 1 = 2 \<and> leapyear then 1 else 0))) + 1)
              else (y, m, n - preceding + 1))"

text \<open>
  The constructor \<^verbatim>\<open>date(y, m, d)\<close> raises \<^verbatim>\<open>ValueError\<close> outside the years
  1 to 9999, the months 1 to 12 and the days of the month.
\<close>

definition valid_ymd :: "int \<Rightarrow> int \<Rightarrow> int \<Rightarrow> bool" where
  "valid_ymd y m d =
     (1 \<le> y \<and> y \<le> 9999 \<and> 1 \<le> m \<and> m \<le> 12 \<and> 1 \<le> d \<and> d \<le> days_in_month y m)"

definition valid_date :: "date \<Rightarrow> bool" where
  "valid_date d = valid_ymd (year d) (month d) (day d)"

definition mk_date :: "int \<Rightarrow> int \<Rightarrow> int \<Rightarrow> date" where
  "mk_date y m d = \<lparr>year = y, month = m, day = d\<rparr>"

definition date_new :: "int \<Rightarrow> int \<Rightarrow> int \<Rightarrow> error + date" where
  "date_new y m d = (if valid_ymd y m d then Inr (mk_date y m d) else Inl ValueError)"

definition fromordinal :: "int \<Rightarrow> error + date" where
  "fromordinal n =
     (if n < 1 then Inl ValueError
      else case ord2ymd n of (y, m, d) \<Rightarrow> date_new y m d)"

text \<open>
  Dates and \<^verbatim>\<open>(year, month)\<close> tuples compare lexicographically. Python's
  \<^verbatim>\<open>min(a, b)\<close> and \<^verbatim>\<open>max(a, b)\<close> return the first argument unless the second
  is strictly smaller, respectively strictly larger.
\<close>

definition ym_less :: "int \<times> int \<Rightarrow> int \<times> int \<Rightarrow> bool" where
  "ym_less a b = (fst a < fst b \<or> (fst a = fst b \<and> snd a < snd b))"

definition ym_le :: "int \<times> int \<Rightarrow> int \<times> int \<Rightarrow> bool" where
  "ym_le a b = (fst a < fst b \<or> (fst a = fst b \<and> snd a \<le> snd b))"

definition date_less :: "date \<Rightarrow> date \<Rightarrow> bool" where
  "date_less a b =
     (year a < year b
      \<or> (year a = year b \<and> (month a < month b \<or> (month a = month b \<and> day a < day b))))"

definition date_le :: "date \<Rightarrow> date \<Rightarrow> bool" where
  "date_le a b =
     (year a < year b
      \<or> (year a = year b \<and> (month a < month b \<or> (month a = month b \<and> day a \<le> day b))))"

definition date_min :: "date \<Rightarrow> date \<Rightarrow> date" where
  "date_min a b = (if date_less b a then b else a)"

definition date_max :: "date \<Rightarrow> date \<Rightarrow> date" where
  "date_max a b = (if date_less a b then b else a)"

section \<open>Settings\<close>

text \<open>
  The settings table holds five texts; the readers \<^verbatim>\<open>project_start_date()\<close>,
  \<^verbatim>\<open>daily_amount()\<close>, \<^verbatim>\<open>monthly_cap()\<close>, \<^verbatim>\<open>oct_2025_fixed()\<close> and
  \<^verbatim>\<open>project_end_date()\<close> parse them at every call. The record holds the parsed
  values and is passed to every function that reads a setting; an empty
  \<^verbatim>\<open>project_end_date\<close> text is \<open>None\<close>.
\<close>

record config =
  project_start_date :: date
  daily_amount :: int
  monthly_cap :: int
  oct_2025_fixed :: int
  project_end_date :: "date option"

definition default_config :: config where
  "default_config =
     \<lparr>project_start_date = mk_date 2025 10 15, daily_amount = 2000,
      monthly_cap = 60000, oct_2025_fixed = 30000, project_end_date = None\<rparr>"

text \<open>
  \<^verbatim>\<open>as_of_date()\<close>: the calculation date is \<^verbatim>\<open>min(today, end)\<close> when a stop date
  is set. The clock \<^verbatim>\<open>today()\<close> is a parameter.
\<close>

definition as_of_date :: "config \<Rightarrow> date \<Rightarrow> date" where
  "as_of_date cfg today =
     (case project_end_date cfg of Some endd \<Rightarrow> date_min today endd | None \<Rightarrow> today)"

section \<open>Accrual\<close>

definition month_end :: "date \<Rightarrow> error + date" where
  "month_end d =
     (if month d = 12 then date_new (year d) 12 31
      else case date_new (year d) (month d + 1) 1 of
             Inl e \<Rightarrow> Inl e
           | Inr nxt \<Rightarrow> fromordinal (toordinal nxt - 1))"

text \<open>
  The \<^verbatim>\<open>while\<close> loop of \<^verbatim>\<open>months_between\<close>, with the list \<^verbatim>\<open>out\<close> as
  accumulator. On month numbers above 12 the Python loop never leaves a year, so the
  loop is a partial function: \<open>None\<close> stands for a loop that does not return.
\<close>

partial_function (option) months_loop ::
  "int \<Rightarrow> int \<Rightarrow> date \<Rightarrow> (int \<times> int) list \<Rightarrow> (int \<times> int) list option" where
  "months_loop y m e out =
     (if ym_le (y, m) (year e, month e)
      then (if m = 12 then months_loop (y + 1) 1 e (out @ [(y, m)])
            else months_loop y (m + 1) e (out @ [(y, m)]))
      else Some out)"

declare months_loop.simps [code]

definition months_between :: "date \<Rightarrow> date \<Rightarrow> (int \<times> int) list option" where
  "months_between start e = months_loop (year start) (month start) e []"

definition due_for_month :: "config \<Rightarrow> int \<Rightarrow> int \<Rightarrow> date \<Rightarrow> date \<Rightarrow> error + int" where
  "due_for_month cfg yr mo asof member_start =
     (if ym_less (yr, mo) (year member_start, month member_start) then Inr 0
      else if yr = 2025 \<and> mo = 10 then
        (if (year member_start, month member_start) \<noteq> (2025, 10) then Inr 0
         else if date_less asof (mk_date 2025 10 31) then Inr 0
         else Inr (oct_2025_fixed cfg))
      else
        case date_new yr mo 1 of
          Inl e \<Rightarrow> Inl e
        | Inr m_start \<Rightarrow>
            (case month_end m_start of
               Inl e \<Rightarrow> Inl e
             | Inr m_end \<Rightarrow>
                 (let eff_start = date_max m_start member_start;
                      eff_end = date_min m_end asof
                  in if date_less eff_end eff_start then Inr 0
                     else
                       let days = toordinal eff_end - toordinal eff_start + 1
                       in Inr (min (monthly_cap cfg) (daily_amount cfg * days)))))"

text \<open>
  The \<^verbatim>\<open>for\<close> loop of \<^verbatim>\<open>due_total_as_of\<close> over the list of months, with the running
  \<^verbatim>\<open>total\<close> (here \<open>tot\<close>); an exception of \<^verbatim>\<open>due_for_month\<close> ends the loop.
\<close>

fun due_sum :: "config \<Rightarrow> (int \<times> int) list \<Rightarrow> date \<Rightarrow> date \<Rightarrow> int \<Rightarrow> error + int" where
  "due_sum cfg [] asof member_start tot = Inr tot"
| "due_sum cfg ((y, m) # rest) asof member_start tot =
     (case due_for_month cfg y m asof member_start of
        Inl e \<Rightarrow> Inl e
      | Inr v \<Rightarrow> due_sum cfg rest asof member_start (tot + v))"

definition due_total_as_of :: "config \<Rightarrow> date \<Rightarrow> date \<Rightarrow> (error + int) option" where
  "due_total_as_of cfg asof member_start =
     (if date_less asof member_start then Some (Inr 0)
      else case months_between member_start asof of
             None \<Rightarrow> None
           | Some ms \<Rightarrow> Some (due_sum cfg ms asof member_start 0))"

text \<open>
  Months are numbered consecutively for the proofs: month \<open>m\<close> of year \<open>y\<close> has the
  index \<open>12 * y + (m - 1)\<close>.
\<close>

definition month_index :: "int \<times> int \<Rightarrow> int" where
  "month_index ym = fst ym * 12 + (snd ym - 1)"

definition index_month :: "int \<Rightarrow> int \<times> int" where
  "index_month i = (i div 12, i mod 12 + 1)"

text \<open>
  The day count of the specification: the days of the calendar month \<open>(yr, mo)\<close>, from
  its first to its last day, that lie between the enrollment date and the as-of date,
  both included.
\<close>

definition month_days :: "int \<Rightarrow> int \<Rightarrow> date list" where
  "month_days yr mo = map (mk_date yr mo) [1..days_in_month yr mo]"

definition window_day_count :: "int \<Rightarrow> int \<Rightarrow> date \<Rightarrow> date \<Rightarrow> int" where
  "window_day_count yr mo asof member_start =
     int (length (filter (\<lambda>d. date_le member_start d \<and> date_le d asof) (month_days yr mo)))"

text \<open>The amount \<^verbatim>\<open>due_for_month\<close> returns for a month, 0 where it raises.\<close>

definition month_due :: "config \<Rightarrow> date \<Rightarrow> date \<Rightarrow> int \<times> int \<Rightarrow> int" where
  "month_due cfg asof member_start ym =
     (case due_for_month cfg (fst ym) (snd ym) asof member_start of
        Inr v \<Rightarrow> v | Inl e \<Rightarrow> 0)"

section \<open>The record store\<close>

text \<open>
  The three tables, as lists of rows in insertion order. The date columns hold the text
  \<^verbatim>\<open>d.isoformat()\<close> of a date every handler has parsed before; the rows hold that
  date, and the comparison \<^verbatim>\<open>pay_date <= ?\<close> of two such texts is the comparison of the
  dates. The columns \<^verbatim>\<open>id\<close> of \<^verbatim>\<open>payments\<close> and \<^verbatim>\<open>bank_deposits\<close>, assigned by the
  store, are read by none of the functions below and are left out. The connection never
  turns the enforcement of foreign keys on, so an insertion into \<^verbatim>\<open>payments\<close> does not
  look at \<^verbatim>\<open>members\<close>.
\<close>

record member_row =
  m_id :: int
  m_full_name :: string
  m_phone :: string
  m_pin_hash :: string
  m_start_date :: date
  m_is_active :: int
  m_created_at :: string

record payment_row =
  p_member_id :: int
  p_pay_date :: date
  p_amount :: int
  p_mode :: string
  p_reference :: string
  p_note :: string
  p_created_at :: string

record deposit_row =
  d_dep_date :: date
  d_amount :: int
  d_reference :: string
  d_note :: string
  d_created_at :: string

record store =
  members :: "member_row list"
  payments :: "payment_row list"
  bank_deposits :: "deposit_row list"

definition paid_total_as_of :: "store \<Rightarrow> int \<Rightarrow> date \<Rightarrow> int" where
  "paid_total_as_of st member_id asof =
     sum_list (map p_amount
       (filter (\<lambda>p. p_member_id p = member_id \<and> date_le (p_pay_date p) asof) (payments st)))"

definition total_collected_as_of :: "store \<Rightarrow> date \<Rightarrow> int" where
  "total_collected_as_of st asof =
     sum_list (map p_amount (filter (\<lambda>p. date_le (p_pay_date p) asof) (payments st)))"

definition total_deposited_as_of :: "store \<Rightarrow> date \<Rightarrow> int" where
  "total_deposited_as_of st asof =
     sum_list (map d_amount (filter (\<lambda>d. date_le (d_dep_date d) asof) (bank_deposits st)))"

text \<open>
  The dictionary \<^verbatim>\<open>member_status\<close> returns. The labels stand for the texts
  \<^verbatim>\<open>"A jour"\<close>, \<^verbatim>\<open>"En retard"\<close> and \<^verbatim>\<open>"Desactive"\<close> (written with accents in the
  source); the dictionary built for a deactivated member has no key \<^verbatim>\<open>balance\<close>. The
  local \<^verbatim>\<open>rest = due - paid\<close> of the source is never read and is left out.
\<close>

datatype status_label = A_jour | En_retard | Desactive

record member_status_dict =
  due :: int
  paid :: int
  rest :: int
  avance :: int
  balance :: "int option"
  status :: status_label

definition member_status ::
  "store \<Rightarrow> config \<Rightarrow> int \<Rightarrow> date \<Rightarrow> date \<Rightarrow> (error + member_status_dict) option" where
  "member_status st cfg member_id member_start asof =
     (case due_total_as_of cfg asof member_start of
        None \<Rightarrow> None
      | Some (Inl e) \<Rightarrow> Some (Inl e)
      | Some (Inr due_v) \<Rightarrow>
          (let paid_v = paid_total_as_of st member_id asof;
               balance_v = paid_v - due_v;
               avance_v = max 0 balance_v;
               rest_pos = max 0 (- balance_v);
               status_v = (if rest_pos = 0 then A_jour else En_retard)
           in Some (Inr \<lparr>due = due_v, paid = paid_v, rest = rest_pos, avance = avance_v,
                          balance = Some balance_v, status = status_v\<rparr>)))"

text \<open>
  The status \<^verbatim>\<open>admin_dashboard\<close> and \<^verbatim>\<open>admin_member\<close> compute for a member row: the
  same conditional expression in both.
\<close>

definition inactive_status :: member_status_dict where
  "inactive_status =
     \<lparr>due = 0, paid = 0, rest = 0, avance = 0, balance = None, status = Desactive\<rparr>"

definition row_status ::
  "store \<Rightarrow> config \<Rightarrow> date \<Rightarrow> member_row \<Rightarrow> (error + member_status_dict) option" where
  "row_status st cfg asof m =
     (let is_active = (m_is_active m = 1);
          m_start = m_start_date m
      in if is_active then member_status st cfg (m_id m) m_start asof
         else Some (Inr inactive_status))"

text \<open>
  The pages and redirections the handlers answer with. \<open>Access_refused\<close> is the page of
  \<^verbatim>\<open>require_admin\<close>; \<open>Err_solde\<close> carries the amount the page prints as
  \<^verbatim>\<open>Disponible\<close>; \<open>Fiche\<close> carries the status the member page shows.
\<close>

datatype response =
    Access_refused
  | Introuvable
  | Fiche member_status_dict
  | Err_mode
  | Err_date
  | Err_montant
  | Err_date_banque
  | Err_montant_banque
  | Err_solde int
  | Redirect_member int
  | Redirect_comptabilite int int

text \<open>\<^verbatim>\<open>admin_member\<close>: the view of one member, up to the status it shows.\<close>

definition admin_member ::
  "store \<Rightarrow> config \<Rightarrow> bool \<Rightarrow> date \<Rightarrow> int \<Rightarrow> (error + response) option" where
  "admin_member st cfg admin today member_id =
     (if \<not> admin then Some (Inr Access_refused)
      else
        let asof = as_of_date cfg today
        in case find (\<lambda>m. m_id m = member_id) (members st) of
             None \<Rightarrow> Some (Inr Introuvable)
           | Some m \<Rightarrow>
               (case row_status st cfg asof m of
                  None \<Rightarrow> None
                | Some (Inl e) \<Rightarrow> Some (Inl e)
                | Some (Inr s) \<Rightarrow> Some (Inr (Fiche s))))"

definition admin_deactivate_member :: "store \<Rightarrow> bool \<Rightarrow> int \<Rightarrow> response \<times> store" where
  "admin_deactivate_member st admin member_id =
     (if \<not> admin then (Access_refused, st)
      else (Redirect_member member_id,
            st\<lparr>members := map (\<lambda>m. if m_id m = member_id then m\<lparr>m_is_active := 0\<rparr> else m)
                               (members st)\<rparr>))"

text \<open>
  \<^verbatim>\<open>str.strip\<close> and \<^verbatim>\<open>str.lower\<close> on ASCII texts: the white space characters are
  the space, the control characters 9 to 13 and 28 to 31.
\<close>

definition is_space :: "char \<Rightarrow> bool" where
  "is_space c = (let n = (of_char c :: nat) in n = 32 \<or> (9 \<le> n \<and> n \<le> 13) \<or> (28 \<le> n \<and> n \<le> 31))"

definition strip :: "string \<Rightarrow> string" where
  "strip s = rev (dropWhile is_space (rev (dropWhile is_space s)))"

definition lower :: "string \<Rightarrow> string" where
  "lower s = map (\<lambda>c. let n = (of_char c :: nat)
                       in if 65 \<le> n \<and> n \<le> 90 then char_of (n + 32) else c) s"

text \<open>
  \<^verbatim>\<open>admin_add_payment\<close> and \<^verbatim>\<open>admin_compta_add\<close>. The argument \<open>pay_date\<close> is the
  outcome of \<^verbatim>\<open>date.fromisoformat(pay_date.strip())\<close>, \<open>None\<close> when it raises;
  \<open>now\<close> is the text of \<^verbatim>\<open>datetime.now()\<close>.
\<close>

definition admin_add_payment ::
  "store \<Rightarrow> bool \<Rightarrow> int \<Rightarrow> date option \<Rightarrow> int \<Rightarrow> string \<Rightarrow> string \<Rightarrow> string \<Rightarrow> string
   \<Rightarrow> response \<times> store" where
  "admin_add_payment st admin member_id pay_date amount mode reference note now =
     (if \<not> admin then (Access_refused, st)
      else
        let mode = lower (strip mode)
        in if mode \<notin> {''wave'', ''om'', ''cash''} then (Err_mode, st)
           else case pay_date of
                  None \<Rightarrow> (Err_date, st)
                | Some d \<Rightarrow>
                    if amount \<le> 0 then (Err_montant, st)
                    else (Redirect_member member_id,
                          st\<lparr>payments := payments st @
                             [\<lparr>p_member_id = member_id, p_pay_date = d, p_amount = amount,
                               p_mode = mode, p_reference = strip reference,
                               p_note = strip note, p_created_at = now\<rparr>]\<rparr>))"

definition admin_compta_add ::
  "store \<Rightarrow> bool \<Rightarrow> date option \<Rightarrow> int \<Rightarrow> int \<Rightarrow> string \<Rightarrow> string \<Rightarrow> string \<Rightarrow> int \<Rightarrow> int
   \<Rightarrow> string \<Rightarrow> response \<times> store" where
  "admin_compta_add st admin pay_date member_id amount mode reference note mois annee now =
     (if \<not> admin then (Access_refused, st)
      else
        let mode = lower (strip mode)
        in if mode \<notin> {''wave'', ''om'', ''cash''} then (Err_mode, st)
           else case pay_date of
                  None \<Rightarrow> (Err_date, st)
                | Some d \<Rightarrow>
                    if amount \<le> 0 then (Err_montant, st)
                    else
                      let st' = st\<lparr>payments := payments st @
                             [\<lparr>p_member_id = member_id, p_pay_date = d, p_amount = amount,
                               p_mode = mode, p_reference = strip reference,
                               p_note = strip note, p_created_at = now\<rparr>]\<rparr>;
                          mois = (if mois = 0 then month d else mois);
                          annee = (if annee = 0 then year d else annee)
                      in (Redirect_comptabilite mois annee, st'))"

text \<open>
  \<^verbatim>\<open>admin_add_bank_deposit\<close>; \<open>dep_date\<close> is the outcome of
  \<^verbatim>\<open>date.fromisoformat(dep_date.strip())\<close>.
\<close>

definition admin_add_bank_deposit ::
  "store \<Rightarrow> config \<Rightarrow> bool \<Rightarrow> date \<Rightarrow> date option \<Rightarrow> int \<Rightarrow> string \<Rightarrow> string \<Rightarrow> int \<Rightarrow> int
   \<Rightarrow> string \<Rightarrow> response \<times> store" where
  "admin_add_bank_deposit st cfg admin today dep_date amount reference note mois annee now =
     (if \<not> admin then (Access_refused, st)
      else case dep_date of
             None \<Rightarrow> (Err_date_banque, st)
           | Some d \<Rightarrow>
               if amount \<le> 0 then (Err_montant_banque, st)
               else
                 let asof = as_of_date cfg today;
                     collected = total_collected_as_of st asof;
                     deposited = total_deposited_as_of st asof;
                     available = max 0 (collected - deposited)
                 in if amount > available then (Err_solde available, st)
                    else
                      let st' = st\<lparr>bank_deposits := bank_deposits st @
                             [\<lparr>d_dep_date = d, d_amount = amount, d_reference = strip reference,
                               d_note = strip note, d_created_at = now\<rparr>]\<rparr>;
                          mois = (if mois = 0 then month d else mois);
                          annee = (if annee = 0 then year d else annee)
                      in (Redirect_comptabilite mois annee, st'))"

definition empty_store :: store where
  "empty_store = \<lparr>members = [], payments = [], bank_deposits = []\<rparr>"

text \<open>A store and a stopped configuration for the examples.\<close>

definition stopped_config :: config where
  "stopped_config = default_config\<lparr>project_end_date := Some (mk_date 2025 11 20)\<rparr>"

definition ledger_store :: store where
  "ledger_store =
     \<lparr>members =
        [\<lparr>m_id = 1, m_full_name = ''Awa'', m_phone = ''771234567'', m_pin_hash = ''h1'',
          m_start_date = mk_date 2025 10 15, m_is_active = 1,
          m_created_at = ''2025-10-15T09:00:00''\<rparr>,
         \<lparr>m_id = 2, m_full_name = ''Modou'', m_phone = ''781234567'', m_pin_hash = ''h2'',
          m_start_date = mk_date 2025 10 15, m_is_active = 0,
          m_created_at = ''2025-10-15T09:05:00''\<rparr>],
      payments =
        [\<lparr>p_member_id = 1, p_pay_date = mk_date 2025 11 1, p_amount = 70000,
          p_mode = ''wave'', p_reference = '''', p_note = '''',
          p_created_at = ''2025-11-01T10:00:00''\<rparr>,
         \<lparr>p_member_id = 2, p_pay_date = mk_date 2025 11 3, p_amount = 30000,
          p_mode = ''cash'', p_reference = '''', p_note = '''',
          p_created_at = ''2025-11-03T10:00:00''\<rparr>],
      bank_deposits =
        [\<lparr>d_dep_date = mk_date 2025 11 5, d_amount = 40000, d_reference = '''',
          d_note = '''', d_created_at = ''2025-11-05T10:00:00''\<rparr>]\<rparr>"

section \<open>Calendar facts\<close>

lemma days_before_year_cycles:
  fixes a b c d :: int
  assumes "0 \<le> b" "b < 4" "0 \<le> c" "c < 25" "0 \<le> d" "d < 4"
  shows "days_before_year (400 * a + 100 * b + 4 * c + d + 1)
         = 146097 * a + 36524 * b + 1461 * c + 365 * d"
proof -
  let ?p = "400 * a + 100 * b + 4 * c + d"
  have d4: "?p div 4 = 100 * a + 25 * b + c"
    by (rule int_div_pos_eq[where r = d]) (use assms in auto)
  have d100: "?p div 100 = 4 * a + b"
    by (rule int_div_pos_eq[where r = "4 * c + d"]) (use assms in auto)
  have d400: "?p div 400 = a"
    by (rule int_div_pos_eq[where r = "100 * b + 4 * c + d"]) (use assms in auto)
  show ?thesis
    unfolding days_before_year_def Let_def
    using d4 d100 d400 by simp
qed

lemma mod_zero_cycle:
  fixes k q r :: int
  assumes "0 \<le> r" "r \<le> k" "0 < k"
  shows "((k * q + r) mod k = 0) = (r = 0 \<or> r = k)"
proof (cases "r = k")
  case True
  then show ?thesis by simp
next
  case False
  with assms have "r < k" by simp
  then have "(k * q + r) mod k = r"
    using assms by (intro int_mod_pos_eq[where q = q]) auto
  then show ?thesis using False by simp
qed

lemma is_leap_cycles:
  fixes a b c d :: int
  assumes "0 \<le> b" "b < 4" "0 \<le> c" "c < 25" "0 \<le> d" "d < 4"
  shows "is_leap (400 * a + 100 * b + 4 * c + d + 1) = (d = 3 \<and> (c \<noteq> 24 \<or> b = 3))"
proof -
  let ?y = "400 * a + 100 * b + 4 * c + d + 1"
  have y4: "?y = 4 * (100 * a + 25 * b + c) + (d + 1)" by simp
  have y100: "?y = 100 * (4 * a + b) + (4 * c + d + 1)" by simp
  have y400: "?y = 400 * a + (100 * b + 4 * c + d + 1)" by simp
  have "(?y mod 4 = 0) = (d + 1 = 0 \<or> d + 1 = 4)"
    unfolding y4 by (rule mod_zero_cycle) (use assms in linarith)+
  also have "\<dots> = (d = 3)" using assms by linarith
  finally have e4: "(?y mod 4 = 0) = (d = 3)" .
  have "(?y mod 100 = 0) = (4 * c + d + 1 = 0 \<or> 4 * c + d + 1 = 100)"
    unfolding y100 by (rule mod_zero_cycle) (use assms in linarith)+
  also have "\<dots> = (c = 24 \<and> d = 3)" using assms by linarith
  finally have e100: "(?y mod 100 = 0) = (c = 24 \<and> d = 3)" .
  have "(?y mod 400 = 0) = (100 * b + 4 * c + d + 1 = 0 \<or> 100 * b + 4 * c + d + 1 = 400)"
    unfolding y400 by (rule mod_zero_cycle) (use assms in linarith)+
  also have "\<dots> = (b = 3 \<and> c = 24 \<and> d = 3)" using assms by linarith
  finally have e400: "(?y mod 400 = 0) = (b = 3 \<and> c = 24 \<and> d = 3)" .
  show ?thesis unfolding is_leap_def e4 e100 e400 by blast
qed

lemma year_cycles_exist:
  fixes y :: int
  shows "\<exists>a b c d. y = 400 * a + 100 * b + 4 * c + d + 1
          \<and> 0 \<le> b \<and> b < 4 \<and> 0 \<le> c \<and> c < 25 \<and> 0 \<le> d \<and> d < 4"
proof -
  define p where "p = y - 1"
  define a where "a = p div 400"
  define r1 where "r1 = p mod 400"
  define b where "b = r1 div 100"
  define r2 where "r2 = r1 mod 100"
  define c where "c = r2 div 4"
  define d where "d = r2 mod 4"
  have p: "p = 400 * a + r1" and r1: "0 \<le> r1" "r1 < 400"
    unfolding a_def r1_def by simp_all
  have q1: "r1 = 100 * b + r2" and r2: "0 \<le> r2" "r2 < 100"
    unfolding b_def r2_def by simp_all
  have q2: "r2 = 4 * c + d" and d: "0 \<le> d" "d < 4"
    unfolding c_def d_def by simp_all
  have "y = 400 * a + 100 * b + 4 * c + d + 1"
    using p q1 q2 p_def by linarith
  moreover have "0 \<le> b" "b < 4" using r1 q1 r2 by linarith+
  moreover have "0 \<le> c" "c < 25" using r2 q2 d by linarith+
  ultimately show ?thesis using d by blast
qed


lemma ord2ymd_in_year:
  fixes y r :: int
  assumes r: "0 \<le> r" "r < 365"
  shows "ord2ymd (days_before_year y + r + 1) =
    (let leapyear = is_leap y;
         m = (r + 50) div 32;
         preceding = DAYS_BEFORE_MONTH m + (if m > 2 \<and> leapyear then 1 else 0)
     in if preceding > r
        then (y, m - 1,
              r - (preceding - (DAYS_IN_MONTH (m - 1)
                                + (if m - 1 = 2 \<and> leapyear then 1 else 0))) + 1)
        else (y, m, r - preceding + 1))"
proof -
  obtain a b c d where y: "y = 400 * a + 100 * b + 4 * c + d + 1"
    and b: "0 \<le> b" "b < 4" and c: "0 \<le> c" "c < 25" and d: "0 \<le> d" "d < 4"
    using year_cycles_exist[of y] by blast
  define n where "n = days_before_year y + r + 1 - 1"
  define R1 where "R1 = 36524 * b + 1461 * c + 365 * d + r"
  define R2 where "R2 = 1461 * c + 365 * d + r"
  define R3 where "R3 = 365 * d + r"
  have dby: "days_before_year y = 146097 * a + 36524 * b + 1461 * c + 365 * d"
    unfolding y using b c d by (rule days_before_year_cycles)
  have n: "n = 146097 * a + R1" unfolding n_def dby R1_def by simp
  have R1: "R1 = 36524 * b + R2" unfolding R1_def R2_def by simp
  have R2: "R2 = 1461 * c + R3" unfolding R2_def R3_def by simp
  have R3: "R3 = 365 * d + r" unfolding R3_def by simp
  have bR3: "0 \<le> R3" "R3 < 1461" and tR3: "R3 \<le> 1459"
    unfolding R3_def using d r by linarith+
  have bR2: "0 \<le> R2" "R2 < 36524" unfolding R2 using c bR3 tR3 by linarith+
  have bR1: "0 \<le> R1" "R1 < 146097" unfolding R1 using b bR2 by linarith+
  have s400: "n div 146097 = a" "n mod 146097 = R1"
    using int_div_pos_eq[OF n bR1] int_mod_pos_eq[OF n bR1] by simp_all
  have s100: "R1 div 36524 = b" "R1 mod 36524 = R2"
    using int_div_pos_eq[OF R1 bR2] int_mod_pos_eq[OF R1 bR2] by simp_all
  have s4: "R2 div 1461 = c" "R2 mod 1461 = R3"
    using int_div_pos_eq[OF R2 bR3] int_mod_pos_eq[OF R2 bR3] by simp_all
  have s1: "R3 div 365 = d" "R3 mod 365 = r"
    using int_div_pos_eq[OF R3 r] int_mod_pos_eq[OF R3 r] by simp_all
  have leap: "is_leap y = (d = 3 \<and> (c \<noteq> 24 \<or> b = 3))"
    unfolding y using b c d by (rule is_leap_cycles)
  have ne: "d \<noteq> 4" "b \<noteq> 4" using b d by simp_all
  have yy: "a * 400 + 1 + b * 100 + c * 4 + d = y" unfolding y by simp
  show ?thesis
    unfolding ord2ymd_def n_def[symmetric]
    by (simp only: Let_def s400 s100 s4 s1 leap ne yy if_False simp_thms)
qed


lemma month_cases:
  fixes m :: int
  assumes "1 \<le> m" "m \<le> 12"
  shows "m = 1 \<or> m = 2 \<or> m = 3 \<or> m = 4 \<or> m = 5 \<or> m = 6 \<or> m = 7
         \<or> m = 8 \<or> m = 9 \<or> m = 10 \<or> m = 11 \<or> m = 12"
  using assms by arith

lemma month_last_offset:
  fixes y m r :: int
  assumes m: "1 \<le> m" "m \<le> 11" and r: "r = days_before_month y (m + 1) - 1"
  shows "0 \<le> r" "r < 365"
    "(let leapyear = is_leap y;
         k = (r + 50) div 32;
         preceding = DAYS_BEFORE_MONTH k + (if k > 2 \<and> leapyear then 1 else 0)
     in if preceding > r
        then (y, k - 1,
              r - (preceding - (DAYS_IN_MONTH (k - 1)
                                + (if k - 1 = 2 \<and> leapyear then 1 else 0))) + 1)
        else (y, k, r - preceding + 1)) = (y, m, days_in_month y m)"
proof -
  have c: "m = 1 \<or> m = 2 \<or> m = 3 \<or> m = 4 \<or> m = 5 \<or> m = 6 \<or> m = 7
         \<or> m = 8 \<or> m = 9 \<or> m = 10 \<or> m = 11"
    using month_cases[of m] m by simp
  show "0 \<le> r" "r < 365"
    unfolding r days_before_month_def DAYS_BEFORE_MONTH_def using c by auto
  show "(let leapyear = is_leap y;
         k = (r + 50) div 32;
         preceding = DAYS_BEFORE_MONTH k + (if k > 2 \<and> leapyear then 1 else 0)
     in if preceding > r
        then (y, k - 1,
              r - (preceding - (DAYS_IN_MONTH (k - 1)
                                + (if k - 1 = 2 \<and> leapyear then 1 else 0))) + 1)
        else (y, k, r - preceding + 1)) = (y, m, days_in_month y m)"
    unfolding r using c
    by (cases "is_leap y"; elim disjE;
        simp add: days_before_month_def DAYS_BEFORE_MONTH_def DAYS_IN_MONTH_def
                  days_in_month_def Let_def)
qed

lemma ord2ymd_month_last:
  fixes y m :: int
  assumes m: "1 \<le> m" "m \<le> 11"
  shows "ord2ymd (ymd2ord y (m + 1) 1 - 1) = (y, m, days_in_month y m)"
proof -
  define r where "r = days_before_month y (m + 1) - 1"
  note off = month_last_offset[OF m r_def]
  have "ymd2ord y (m + 1) 1 - 1 = days_before_year y + r + 1"
    unfolding ymd2ord_def r_def by simp
  then have "ord2ymd (ymd2ord y (m + 1) 1 - 1) = ord2ymd (days_before_year y + r + 1)"
    by (rule arg_cong)
  also have "\<dots> = (y, m, days_in_month y m)"
    using ord2ymd_in_year[OF off(1,2), of y] off(3) by (rule trans)
  finally show ?thesis .
qed

lemma month_end_eq:
  assumes "1 \<le> y" "y \<le> 9999" "1 \<le> m" "m \<le> 12"
  shows "month_end (mk_date y m 1) = Inr (mk_date y m (days_in_month y m))"
proof (cases "m = 12")
  case True
  then show ?thesis
    using assms by (simp add: month_end_def mk_date_def date_new_def valid_ymd_def days_in_month_def)
next
  case False
  with assms have m: "1 \<le> m" "m \<le> 11" by simp_all
  have dim: "1 \<le> days_in_month y m"
    by (simp add: days_in_month_def)
  have v1: "valid_ymd y (m + 1) 1"
    using assms m by (simp add: valid_ymd_def days_in_month_def)
  have v2: "valid_ymd y m (days_in_month y m)"
    using assms dim by (simp add: valid_ymd_def)
  have "0 \<le> days_before_year y"
    using assms by (simp add: days_before_year_def Let_def) 
  moreover have "0 \<le> days_before_month y (m + 1) - 1"
    using month_last_offset(1)[OF m refl] .
  ultimately have pos: "\<not> ymd2ord y (m + 1) 1 - 1 < 1"
    unfolding ymd2ord_def by linarith
  show ?thesis
    using False v1 v2 pos ord2ymd_month_last[OF m, of y]
    by (simp add: month_end_def date_new_def fromordinal_def toordinal_def mk_date_def)
qed

lemma days_before_year_Suc:
  "days_before_year (y + 1) = days_before_year y + 365 + (if is_leap y then 1 else 0)"
proof -
  obtain a b c d where y: "y = 400 * a + 100 * b + 4 * c + d + 1"
    and bb: "0 \<le> b" "b < 4" and bc: "0 \<le> c" "c < 25" and bd: "0 \<le> d" "d < 4"
    using year_cycles_exist[of y] by blast
  have dby: "days_before_year y = 146097 * a + 36524 * b + 1461 * c + 365 * d"
    unfolding y using bb bc bd by (rule days_before_year_cycles)
  have leap: "is_leap y = (d = 3 \<and> (c \<noteq> 24 \<or> b = 3))"
    unfolding y using bb bc bd by (rule is_leap_cycles)
  consider (d) "d < 3" | (c) "d = 3" "c < 24" | (b) "d = 3" "c = 24" "b < 3"
    | (a) "d = 3" "c = 24" "b = 3"
    using bb bc bd by linarith
  then show ?thesis
  proof cases
    case d
    have "y + 1 = 400 * a + 100 * b + 4 * c + (d + 1) + 1" unfolding y by simp
    then have "days_before_year (y + 1) = 146097 * a + 36524 * b + 1461 * c + 365 * (d + 1)"
      using days_before_year_cycles[of b c "d + 1" a] bb bc bd \<open>d < 3\<close> by simp
    then show ?thesis using dby leap d by simp
  next
    case c
    have "y + 1 = 400 * a + 100 * b + 4 * (c + 1) + 0 + 1" unfolding y using c by simp
    then have "days_before_year (y + 1) = 146097 * a + 36524 * b + 1461 * (c + 1) + 365 * 0"
      using days_before_year_cycles[of b "c + 1" 0 a] bb bc \<open>c < 24\<close> by simp
    then show ?thesis using dby leap c by simp
  next
    case b
    have "y + 1 = 400 * a + 100 * (b + 1) + 4 * 0 + 0 + 1" unfolding y using b by simp
    then have "days_before_year (y + 1) = 146097 * a + 36524 * (b + 1) + 1461 * 0 + 365 * 0"
      using days_before_year_cycles[of "b + 1" 0 0 a] bb \<open>b < 3\<close> by simp
    then show ?thesis using dby leap b by simp
  next
    case a
    have "y + 1 = 400 * (a + 1) + 100 * 0 + 4 * 0 + 0 + 1" unfolding y using a by simp
    then have "days_before_year (y + 1) = 146097 * (a + 1) + 36524 * 0 + 1461 * 0 + 365 * 0"
      using days_before_year_cycles[of 0 0 0 "a + 1"] by simp
    then show ?thesis using dby leap a by simp
  qed
qed

lemma days_before_year_mono:
  assumes "y1 \<le> y2"
  shows "days_before_year y1 \<le> days_before_year y2"
  using assms
proof (induction y2 rule: int_ge_induct)
  case base
  show ?case by simp
next
  case (step i)
  then show ?case using days_before_year_Suc[of i] by (simp split: if_splits)
qed

lemma day_of_year_bound:
  assumes "valid_ymd y m d"
  shows "days_before_month y m + d \<le> 365 + (if is_leap y then 1 else 0)"
    and "0 \<le> days_before_month y m"
proof -
  have m: "1 \<le> m" "m \<le> 12" and d: "d \<le> days_in_month y m"
    using assms by (simp_all add: valid_ymd_def)
  show "days_before_month y m + d \<le> 365 + (if is_leap y then 1 else 0)"
    using month_cases[OF m] d
    by (cases "is_leap y"; elim disjE;
        simp add: days_before_month_def DAYS_BEFORE_MONTH_def days_in_month_def)
  show "0 \<le> days_before_month y m"
    using month_cases[OF m]
    by (cases "is_leap y"; elim disjE;
        simp add: days_before_month_def DAYS_BEFORE_MONTH_def)
qed

lemma days_before_month_step:
  assumes "1 \<le> m" "m \<le> 11"
  shows "days_before_month y (m + 1) = days_before_month y m + days_in_month y m"
proof -
  have "m = 1 \<or> m = 2 \<or> m = 3 \<or> m = 4 \<or> m = 5 \<or> m = 6 \<or> m = 7
         \<or> m = 8 \<or> m = 9 \<or> m = 10 \<or> m = 11"
    using month_cases[of m] assms by simp
  then show ?thesis
    by (cases "is_leap y"; elim disjE;
        simp add: days_before_month_def DAYS_BEFORE_MONTH_def days_in_month_def)
qed

lemma days_before_month_mono:
  assumes "1 \<le> m1" "m1 \<le> m2" "m2 \<le> 12"
  shows "days_before_month y m1 \<le> days_before_month y m2"
  using assms(2,1,3)
proof (induction m2 rule: int_ge_induct)
  case base
  show ?case by simp
next
  case (step i)
  have "0 \<le> days_in_month y i" by (simp add: days_in_month_def)
  then show ?case using step days_before_month_step[of i y] by simp
qed

lemma toordinal_strict_mono:
  assumes a: "valid_date a" and b: "valid_date b" and less: "date_less a b"
  shows "toordinal a < toordinal b"
proof -
  have va: "valid_ymd (year a) (month a) (day a)" and vb: "valid_ymd (year b) (month b) (day b)"
    using a b by (simp_all add: valid_date_def)
  have da: "1 \<le> day a" "day a \<le> days_in_month (year a) (month a)"
    and ma: "1 \<le> month a" "month a \<le> 12"
    using va by (simp_all add: valid_ymd_def)
  have db: "1 \<le> day b" and mb: "1 \<le> month b" "month b \<le> 12"
    using vb by (simp_all add: valid_ymd_def)
  consider (y) "year a < year b" | (m) "year a = year b" "month a < month b"
    | (d) "year a = year b" "month a = month b" "day a < day b"
    using less by (auto simp add: date_less_def)
  then show ?thesis
  proof cases
    case y
    have "toordinal a \<le> days_before_year (year a + 1)"
      using day_of_year_bound(1)[OF va] days_before_year_Suc[of "year a"]
      by (simp add: toordinal_def ymd2ord_def)
    also have "\<dots> \<le> days_before_year (year b)"
      using y by (intro days_before_year_mono) simp
    also have "\<dots> < toordinal b"
      using day_of_year_bound(2)[OF vb] db by (simp add: toordinal_def ymd2ord_def)
    finally show ?thesis .
  next
    case m
    have "days_before_month (year a) (month a) + day a \<le> days_before_month (year a) (month a + 1)"
      using days_before_month_step[of "month a" "year a"] ma m mb da by simp
    also have "\<dots> \<le> days_before_month (year a) (month b)"
      using m ma mb by (intro days_before_month_mono) simp_all
    finally show ?thesis using m db by (simp add: toordinal_def ymd2ord_def)
  next
    case d
    then show ?thesis by (simp add: toordinal_def ymd2ord_def)
  qed
qed

lemma date_less_total:
  "date_less a b \<or> a = b \<or> date_less b a"
  by (cases a; cases b) (auto simp add: date_less_def)

lemma date_less_irrefl: "\<not> date_less a a"
  by (simp add: date_less_def)

lemma toordinal_less_iff:
  assumes "valid_date a" "valid_date b"
  shows "toordinal a < toordinal b \<longleftrightarrow> date_less a b"
  using toordinal_strict_mono[OF assms] toordinal_strict_mono[OF assms(2,1)]
        date_less_total[of a b]
  by auto

lemma toordinal_le_iff:
  assumes "valid_date a" "valid_date b"
  shows "toordinal a \<le> toordinal b \<longleftrightarrow> \<not> date_less b a"
  using toordinal_less_iff[OF assms(2,1)] by auto

section \<open>The list of months\<close>

lemma index_month_index:
  assumes "1 \<le> m" "m \<le> 12"
  shows "index_month (month_index (y, m)) = (y, m)"
proof -
  have e: "month_index (y, m) = 12 * y + (m - 1)" by (simp add: month_index_def)
  have "(12 * y + (m - 1)) div 12 = y" "(12 * y + (m - 1)) mod 12 = m - 1"
    using assms int_div_pos_eq[of "12 * y + (m - 1)" 12 y "m - 1"]
          int_mod_pos_eq[of "12 * y + (m - 1)" 12 y "m - 1"] by simp_all
  then show ?thesis unfolding e index_month_def by simp
qed

lemma ym_le_index:
  assumes "1 \<le> m" "m \<le> 12" "1 \<le> m'" "m' \<le> 12"
  shows "ym_le (y, m) (y', m') \<longleftrightarrow> month_index (y, m) \<le> month_index (y', m')"
  using assms by (auto simp add: ym_le_def month_index_def)

lemma ym_less_index:
  assumes "1 \<le> m" "m \<le> 12" "1 \<le> m'" "m' \<le> 12"
  shows "ym_less (y, m) (y', m') \<longleftrightarrow> month_index (y, m) < month_index (y', m')"
  using assms by (auto simp add: ym_less_def month_index_def)

lemma months_loop_closed:
  assumes "1 \<le> m" "m \<le> 12" "1 \<le> month e" "month e \<le> 12"
  shows "months_loop y m e out =
         Some (out @ map index_month [month_index (y, m) .. month_index (year e, month e)])"
  using assms(1,2)
proof (induction "nat (month_index (year e, month e) + 1 - month_index (y, m))"
       arbitrary: y m out)
  case 0
  then have gt: "month_index (year e, month e) < month_index (y, m)" by simp
  then have "\<not> ym_le (y, m) (year e, month e)"
    using ym_le_index[OF "0.prems" assms(3,4)] by simp
  then show ?case using gt by (subst months_loop.simps) simp
next
  case (Suc k)
  let ?i = "month_index (y, m)" and ?j = "month_index (year e, month e)"
  have le: "?i \<le> ?j" using Suc.hyps(2) by linarith
  then have c: "ym_le (y, m) (year e, month e)"
    using ym_le_index[OF Suc.prems assms(3,4)] by simp
  have up: "[?i..?j] = ?i # [?i + 1..?j]" using le by (simp add: upto_rec1)
  have im: "index_month ?i = (y, m)" using Suc.prems by (rule index_month_index)
  show ?case
  proof (cases "m = 12")
    case True
    have nx: "month_index (y + 1, 1) = ?i + 1" using True by (simp add: month_index_def)
    have "k = nat (?j + 1 - month_index (y + 1, 1))" using Suc.hyps(2) nx by linarith
    from Suc.hyps(1)[OF this, of "out @ [(y, m)]"]
    have "months_loop (y + 1) 1 e (out @ [(y, m)])
          = Some ((out @ [(y, m)]) @ map index_month [?i + 1..?j])"
      using nx by simp
    then show ?thesis using c True up im by (subst months_loop.simps) simp
  next
    case False
    then have m': "1 \<le> m + 1" "m + 1 \<le> 12" using Suc.prems by simp_all
    have nx: "month_index (y, m + 1) = ?i + 1" by (simp add: month_index_def)
    have "k = nat (?j + 1 - month_index (y, m + 1))" using Suc.hyps(2) nx by linarith
    from Suc.hyps(1)[OF this m', of "out @ [(y, m)]"]
    have "months_loop y (m + 1) e (out @ [(y, m)])
          = Some ((out @ [(y, m)]) @ map index_month [?i + 1..?j])"
      using nx by simp
    then show ?thesis using c False up im by (subst months_loop.simps) simp
  qed
qed

lemma months_between_closed:
  assumes "valid_date s" "valid_date e"
  shows "months_between s e =
         Some (map index_month [month_index (year s, month s) .. month_index (year e, month e)])"
  using assms months_loop_closed[of "month s" e "year s" "[]"]
  by (simp add: months_between_def valid_date_def valid_ymd_def)

section \<open>The amount due for a month and in total\<close>

lemma date_le_iff: "date_le a b \<longleftrightarrow> \<not> date_less b a"
  by (auto simp add: date_le_def date_less_def)

lemma toordinal_mk_date:
  "toordinal (mk_date y m d) = days_before_year y + days_before_month y m + d"
  by (simp add: toordinal_def mk_date_def ymd2ord_def)

lemma valid_mk_date:
  "valid_date (mk_date y m d) = valid_ymd y m d"
  by (simp add: valid_date_def mk_date_def)

lemma toordinal_date_max:
  assumes "valid_date a" "valid_date b"
  shows "toordinal (date_max a b) = max (toordinal a) (toordinal b)"
  using toordinal_less_iff[OF assms]
  by (cases "date_less a b") (simp_all add: date_max_def max_def)

lemma toordinal_date_min:
  assumes "valid_date a" "valid_date b"
  shows "toordinal (date_min a b) = min (toordinal a) (toordinal b)"
  using toordinal_less_iff[OF assms(2,1)]
  by (cases "date_less b a") (simp_all add: date_min_def min_def)

lemma valid_date_max: "valid_date a \<Longrightarrow> valid_date b \<Longrightarrow> valid_date (date_max a b)"
  by (simp add: date_max_def)

lemma valid_date_min: "valid_date a \<Longrightarrow> valid_date b \<Longrightarrow> valid_date (date_min a b)"
  by (simp add: date_min_def)

lemma length_filter_upto:
  fixes a b lo hi :: int
  shows "int (length (filter (\<lambda>k. lo \<le> k \<and> k \<le> hi) [a..b]))
         = (if min b hi < max a lo then 0 else min b hi - max a lo + 1)"
proof -
  have "length (filter (\<lambda>k. lo \<le> k \<and> k \<le> hi) [a..b])
        = card ({k. lo \<le> k \<and> k \<le> hi} \<inter> set [a..b])"
    by (rule distinct_length_filter) simp
  also have "{k. lo \<le> k \<and> k \<le> hi} \<inter> set [a..b] = {max a lo..min b hi}"
    by auto
  finally show ?thesis by simp
qed

lemma window_day_count_ordinals:
  assumes v: "valid_date asof" "valid_date member_start"
    and y: "1 \<le> yr" "yr \<le> 9999" and m: "1 \<le> mo" "mo \<le> 12"
  shows "window_day_count yr mo asof member_start =
     (let lo = max (toordinal (mk_date yr mo 1)) (toordinal member_start);
          hi = min (toordinal (mk_date yr mo (days_in_month yr mo))) (toordinal asof)
      in if hi < lo then 0 else hi - lo + 1)"
proof -
  define base where "base = days_before_year yr + days_before_month yr mo"
  let ?P = "\<lambda>d. date_le member_start d \<and> date_le d asof"
  let ?Q = "\<lambda>k. toordinal member_start - base \<le> k \<and> k \<le> toordinal asof - base"
  have eq: "(?P \<circ> mk_date yr mo) k = ?Q k" if "k \<in> set [1..days_in_month yr mo]" for k
  proof -
    have vk: "valid_date (mk_date yr mo k)"
      using that y m by (simp add: valid_mk_date valid_ymd_def)
    have ok: "toordinal (mk_date yr mo k) = base + k"
      by (simp add: toordinal_mk_date base_def)
    show ?thesis
      using toordinal_le_iff[OF v(2) vk] toordinal_le_iff[OF vk v(1)] ok
      by (auto simp add: date_le_iff)
  qed
  have "filter ?P (month_days yr mo)
        = map (mk_date yr mo) (filter (?P \<circ> mk_date yr mo) [1..days_in_month yr mo])"
    by (simp add: month_days_def filter_map)
  also have "filter (?P \<circ> mk_date yr mo) [1..days_in_month yr mo]
             = filter ?Q [1..days_in_month yr mo]"
    by (rule filter_cong[OF refl]) (use eq in blast)
  finally have "window_day_count yr mo asof member_start
        = int (length (filter ?Q [1..days_in_month yr mo]))"
    by (simp add: window_day_count_def)
  also have "\<dots> = (if min (days_in_month yr mo) (toordinal asof - base)
                        < max 1 (toordinal member_start - base) then 0
                    else min (days_in_month yr mo) (toordinal asof - base)
                         - max 1 (toordinal member_start - base) + 1)"
    by (rule length_filter_upto)
  finally show ?thesis
    by (simp add: toordinal_mk_date base_def Let_def min_def max_def)
qed

lemma due_for_month_general:
  assumes v: "valid_date asof" "valid_date member_start"
    and y: "1 \<le> yr" "yr \<le> 9999" and m: "1 \<le> mo" "mo \<le> 12"
    and after: "\<not> ym_less (yr, mo) (year member_start, month member_start)"
    and nonspecial: "\<not> (yr = 2025 \<and> mo = 10)"
  shows "due_for_month cfg yr mo asof member_start =
     Inr (let lo = max (toordinal (mk_date yr mo 1)) (toordinal member_start);
              hi = min (toordinal (mk_date yr mo (days_in_month yr mo))) (toordinal asof)
          in if hi < lo then 0
             else min (monthly_cap cfg) (daily_amount cfg * (hi - lo + 1)))"
proof -
  let ?first = "mk_date yr mo 1" and ?last = "mk_date yr mo (days_in_month yr mo)"
  have v1: "valid_ymd yr mo 1" using y m by (simp add: valid_ymd_def days_in_month_def)
  have vf: "valid_date ?first" using v1 by (simp add: valid_mk_date)
  have vl: "valid_date ?last"
    using y m by (simp add: valid_mk_date valid_ymd_def days_in_month_def)
  have dn: "date_new yr mo 1 = Inr ?first" using v1 by (simp add: date_new_def)
  have me: "month_end ?first = Inr ?last" using y m by (rule month_end_eq)
  have lt: "date_less (date_min ?last asof) (date_max ?first member_start)
            \<longleftrightarrow> min (toordinal ?last) (toordinal asof)
                 < max (toordinal ?first) (toordinal member_start)"
    using toordinal_less_iff[OF valid_date_min[OF vl v(1)] valid_date_max[OF vf v(2)]]
    by (simp add: toordinal_date_min[OF vl v(1)] toordinal_date_max[OF vf v(2)])
  have c1: "ym_less (yr, mo) (year member_start, month member_start) = False"
    using after by simp
  have c2: "(yr = 2025 \<and> mo = 10) = False" using nonspecial by simp
  show ?thesis
    unfolding due_for_month_def c1 c2
    by (simp add: dn me Let_def lt
                  toordinal_date_min[OF vl v(1)] toordinal_date_max[OF vf v(2)])
qed

lemma due_for_month_returns:
  assumes v: "valid_date asof" "valid_date member_start"
    and y: "1 \<le> yr" "yr \<le> 9999" and m: "1 \<le> mo" "mo \<le> 12"
  shows "\<exists>v. due_for_month cfg yr mo asof member_start = Inr v"
proof (cases "ym_less (yr, mo) (year member_start, month member_start) \<or> (yr = 2025 \<and> mo = 10)")
  case True
  then show ?thesis by (auto simp add: due_for_month_def)
next
  case False
  then show ?thesis using due_for_month_general[OF v y m, of cfg] by simp
qed

lemma due_for_month_month_due:
  assumes "valid_date asof" "valid_date member_start" "1 \<le> yr" "yr \<le> 9999" "1 \<le> mo" "mo \<le> 12"
  shows "due_for_month cfg yr mo asof member_start = Inr (month_due cfg asof member_start (yr, mo))"
  using due_for_month_returns[OF assms, of cfg] by (auto simp add: month_due_def)

lemma due_sum_closed:
  assumes "\<forall>ym \<in> set l. \<exists>v. due_for_month cfg (fst ym) (snd ym) asof member_start = Inr v"
  shows "due_sum cfg l asof member_start tot
         = Inr (tot + sum_list (map (month_due cfg asof member_start) l))"
  using assms
proof (induction l arbitrary: tot)
  case Nil
  show ?case by simp
next
  case (Cons ym l)
  obtain y m where ym: "ym = (y, m)" by (cases ym)
  obtain v where v: "due_for_month cfg y m asof member_start = Inr v"
    using Cons.prems ym by auto
  have "due_sum cfg l asof member_start (tot + v)
        = Inr (tot + v + sum_list (map (month_due cfg asof member_start) l))"
    using Cons.prems by (intro Cons.IH) simp
  moreover have "month_due cfg asof member_start ym = v"
    using v ym by (simp add: month_due_def)
  ultimately show ?case using v ym by simp
qed

lemma month_index_date:
  assumes "valid_date d"
  shows "month_index (year d, month d) div 12 = year d"
    and "12 \<le> month_index (year d, month d)"
    and "month_index (year d, month d) \<le> 9999 * 12 + 11"
proof -
  have b: "1 \<le> year d" "year d \<le> 9999" "1 \<le> month d" "month d \<le> 12"
    using assms by (simp_all add: valid_date_def valid_ymd_def)
  show "month_index (year d, month d) div 12 = year d"
    using index_month_index[OF b(3,4), of "year d"] by (simp add: index_month_def)
  show "12 \<le> month_index (year d, month d)" "month_index (year d, month d) \<le> 9999 * 12 + 11"
    using b by (simp_all add: month_index_def)
qed

lemma index_month_valid:
  assumes "12 \<le> i" "i \<le> 9999 * 12 + 11"
  shows "1 \<le> fst (index_month i)" "fst (index_month i) \<le> 9999"
        "1 \<le> snd (index_month i)" "snd (index_month i) \<le> 12"
proof -
  have "12 div 12 \<le> i div 12" using assms(1) by (intro zdiv_mono1) simp_all
  then show "1 \<le> fst (index_month i)" by (simp add: index_month_def)
  have "i div 12 \<le> (9999 * 12 + 11) div 12" using assms(2) by (intro zdiv_mono1) simp_all
  then show "fst (index_month i) \<le> 9999" by (simp add: index_month_def)
  show "1 \<le> snd (index_month i)" "snd (index_month i) \<le> 12"
    by (simp_all add: index_month_def)
qed

lemma month_index_index:
  "month_index (index_month i) = i"
  by (simp add: month_index_def index_month_def)

lemma due_total_closed:
  assumes v: "valid_date asof" "valid_date member_start"
  shows "due_total_as_of cfg asof member_start =
     Some (Inr (if date_less asof member_start then 0
                else sum_list (map (month_due cfg asof member_start)
                       (map index_month [month_index (year member_start, month member_start)
                                         .. month_index (year asof, month asof)]))))"
proof (cases "date_less asof member_start")
  case True
  then show ?thesis by (simp add: due_total_as_of_def)
next
  case False
  let ?l = "map index_month [month_index (year member_start, month member_start)
                             .. month_index (year asof, month asof)]"
  have mb: "months_between member_start asof = Some ?l"
    using v by (intro months_between_closed)
  have "\<exists>w. due_for_month cfg (fst ym) (snd ym) asof member_start = Inr w" if "ym \<in> set ?l" for ym
  proof -
    from that obtain i where "i \<in> set [month_index (year member_start, month member_start)
                             .. month_index (year asof, month asof)]" "ym = index_month i"
      by (auto simp only: set_map)
    then have i: "ym = index_month i" "month_index (year member_start, month member_start) \<le> i"
      "i \<le> month_index (year asof, month asof)"
      by simp_all
    have "12 \<le> i" "i \<le> 9999 * 12 + 11"
      using i(2,3) month_index_date(2)[OF v(2)] month_index_date(3)[OF v(1)] by linarith+
    from index_month_valid[OF this] show ?thesis
      unfolding i(1) by (intro due_for_month_returns v)
  qed
  then have "due_sum cfg ?l asof member_start 0
             = Inr (0 + sum_list (map (month_due cfg asof member_start) ?l))"
    by (intro due_sum_closed) blast
  then show ?thesis using False mb by (simp add: due_total_as_of_def)
qed

section \<open>Growth of the amount due with the as-of date\<close>

lemma month_due_closed:
  assumes v: "valid_date asof" "valid_date member_start"
    and y: "1 \<le> yr" "yr \<le> 9999" and m: "1 \<le> mo" "mo \<le> 12"
  shows "month_due cfg asof member_start (yr, mo) =
    (if ym_less (yr, mo) (year member_start, month member_start) then 0
     else if yr = 2025 \<and> mo = 10 then
       (if (year member_start, month member_start) \<noteq> (2025, 10) then 0
        else if date_less asof (mk_date 2025 10 31) then 0
        else oct_2025_fixed cfg)
     else
       (let lo = max (toordinal (mk_date yr mo 1)) (toordinal member_start);
            hi = min (toordinal (mk_date yr mo (days_in_month yr mo))) (toordinal asof)
        in if hi < lo then 0
           else min (monthly_cap cfg) (daily_amount cfg * (hi - lo + 1))))"
proof (cases "ym_less (yr, mo) (year member_start, month member_start) \<or> (yr = 2025 \<and> mo = 10)")
  case True
  then show ?thesis by (auto simp add: month_due_def due_for_month_def)
next
  case False
  then have a: "\<not> ym_less (yr, mo) (year member_start, month member_start)"
    and b: "\<not> (yr = 2025 \<and> mo = 10)" by simp_all
  have c1: "ym_less (yr, mo) (year member_start, month member_start) = False"
    using a by simp
  have c2: "(yr = 2025 \<and> mo = 10) = False" using b by simp
  show ?thesis
    unfolding month_due_def fst_conv snd_conv due_for_month_general[OF v y m a b] c1 c2
    by simp
qed

lemma date_less_trans_le:
  assumes "\<not> date_less b a" "date_less b c"
  shows "date_less a c"
  using assms by (auto simp add: date_less_def)

lemma capped_mono:
  fixes cap daily n1 n2 :: int
  assumes "0 \<le> daily" "n1 \<le> n2"
  shows "min cap (daily * n1) \<le> min cap (daily * n2)"
proof -
  have "daily * n1 \<le> daily * n2" by (rule mult_left_mono[OF assms(2,1)])
  then show ?thesis by (simp add: min_def)
qed

lemma month_due_nonneg:
  assumes v: "valid_date asof" "valid_date member_start"
    and y: "1 \<le> yr" "yr \<le> 9999" and m: "1 \<le> mo" "mo \<le> 12"
    and c: "0 \<le> daily_amount cfg" "0 \<le> monthly_cap cfg" "0 \<le> oct_2025_fixed cfg"
  shows "0 \<le> month_due cfg asof member_start (yr, mo)"
proof -
  have "0 \<le> min (monthly_cap cfg) (daily_amount cfg * (hi - lo + 1))" if "\<not> hi < lo" for hi lo :: int
  proof -
    have "0 \<le> daily_amount cfg * (hi - lo + 1)" using c(1) that by simp
    then show ?thesis using c(2) by simp
  qed
  then show ?thesis
    unfolding month_due_closed[OF v y m] using c(3) by (simp add: Let_def)
qed

lemma month_due_mono:
  assumes v: "valid_date asof1" "valid_date asof2" "valid_date member_start"
    and le: "\<not> date_less asof2 asof1"
    and y: "1 \<le> yr" "yr \<le> 9999" and m: "1 \<le> mo" "mo \<le> 12"
    and c: "0 \<le> daily_amount cfg" "0 \<le> monthly_cap cfg" "0 \<le> oct_2025_fixed cfg"
  shows "month_due cfg asof1 member_start (yr, mo) \<le> month_due cfg asof2 member_start (yr, mo)"
proof -
  consider (before) "ym_less (yr, mo) (year member_start, month member_start)"
    | (special) "\<not> ym_less (yr, mo) (year member_start, month member_start)" "yr = 2025 \<and> mo = 10"
    | (general) "\<not> ym_less (yr, mo) (year member_start, month member_start)" "\<not> (yr = 2025 \<and> mo = 10)"
    by blast
  then show ?thesis
  proof cases
    case before
    then show ?thesis
      unfolding month_due_closed[OF v(1,3) y m] month_due_closed[OF v(2,3) y m] by simp
  next
    case special
    have "date_less asof1 (mk_date 2025 10 31)" if "date_less asof2 (mk_date 2025 10 31)"
      using date_less_trans_le[OF le that] .
    then show ?thesis
      unfolding month_due_closed[OF v(1,3) y m] month_due_closed[OF v(2,3) y m]
      using special c(3) by auto
  next
    case general
    define lo where "lo = max (toordinal (mk_date yr mo 1)) (toordinal member_start)"
    define h1 where "h1 = min (toordinal (mk_date yr mo (days_in_month yr mo))) (toordinal asof1)"
    define h2 where "h2 = min (toordinal (mk_date yr mo (days_in_month yr mo))) (toordinal asof2)"
    have "toordinal asof1 \<le> toordinal asof2"
      using toordinal_le_iff[OF v(1,2)] le by simp
    then have h: "h1 \<le> h2" by (simp add: h1_def h2_def min_def)
    have e1: "month_due cfg asof1 member_start (yr, mo)
              = (if h1 < lo then 0 else min (monthly_cap cfg) (daily_amount cfg * (h1 - lo + 1)))"
      by (simp add: month_due_def due_for_month_general[OF v(1,3) y m general]
                    Let_def lo_def h1_def)
    have e2: "month_due cfg asof2 member_start (yr, mo)
              = (if h2 < lo then 0 else min (monthly_cap cfg) (daily_amount cfg * (h2 - lo + 1)))"
      by (simp add: month_due_def due_for_month_general[OF v(2,3) y m general]
                    Let_def lo_def h2_def)
    show ?thesis
    proof (cases "h1 < lo")
      case True
      then show ?thesis
        using month_due_nonneg[OF v(2,3) y m c] by (simp add: e1)
    next
      case False
      then have nl: "\<not> h2 < lo" using h by simp
      have "min (monthly_cap cfg) (daily_amount cfg * (h1 - lo + 1))
            \<le> min (monthly_cap cfg) (daily_amount cfg * (h2 - lo + 1))"
        using h by (intro capped_mono c(1)) simp
      then show ?thesis using False nl by (simp add: e1 e2)
    qed
  qed
qed

lemma month_index_mono:
  assumes "valid_date a" "valid_date b" "\<not> date_less b a"
  shows "month_index (year a, month a) \<le> month_index (year b, month b)"
proof -
  have "1 \<le> month a" "month a \<le> 12" "1 \<le> month b" "month b \<le> 12"
    using assms(1,2) by (simp_all add: valid_date_def valid_ymd_def)
  moreover have "year a < year b \<or> (year a = year b \<and> month a \<le> month b)"
    using assms(3) by (auto simp add: date_less_def)
  ultimately show ?thesis by (auto simp add: month_index_def)
qed

lemma due_total_mono:
  assumes v: "valid_date asof1" "valid_date asof2" "valid_date member_start"
    and le: "\<not> date_less asof2 asof1"
    and c: "0 \<le> daily_amount cfg" "0 \<le> monthly_cap cfg" "0 \<le> oct_2025_fixed cfg"
  shows "\<exists>d1 d2. due_total_as_of cfg asof1 member_start = Some (Inr d1)
                \<and> due_total_as_of cfg asof2 member_start = Some (Inr d2) \<and> d1 \<le> d2"
proof -
  define i0 where "i0 = month_index (year member_start, month member_start)"
  define j1 where "j1 = month_index (year asof1, month asof1)"
  define j2 where "j2 = month_index (year asof2, month asof2)"
  define f1 where "f1 = month_due cfg asof1 member_start"
  define f2 where "f2 = month_due cfg asof2 member_start"
  define d1 where "d1 = (if date_less asof1 member_start then 0
                          else sum_list (map f1 (map index_month [i0..j1])))"
  define d2 where "d2 = (if date_less asof2 member_start then 0
                          else sum_list (map f2 (map index_month [i0..j2])))"
  have t1: "due_total_as_of cfg asof1 member_start = Some (Inr d1)"
    unfolding d1_def f1_def i0_def j1_def by (rule due_total_closed[OF v(1,3)])
  have t2: "due_total_as_of cfg asof2 member_start = Some (Inr d2)"
    unfolding d2_def f2_def i0_def j2_def by (rule due_total_closed[OF v(2,3)])
  have j: "j1 \<le> j2" unfolding j1_def j2_def by (rule month_index_mono[OF v(1,2) le])
  have lo: "12 \<le> i0" unfolding i0_def by (rule month_index_date(2)[OF v(3)])
  have hi: "j2 \<le> 9999 * 12 + 11" unfolding j2_def by (rule month_index_date(3)[OF v(2)])
  have valid: "1 \<le> fst (index_month i) \<and> fst (index_month i) \<le> 9999
               \<and> 1 \<le> snd (index_month i) \<and> snd (index_month i) \<le> 12"
    if "i0 \<le> i" "i \<le> j2" for i
    using index_month_valid[of i] that lo hi by simp
  have nonneg: "0 \<le> f2 (index_month i)" if "i0 \<le> i" "i \<le> j2" for i
  proof -
    have "0 \<le> month_due cfg asof2 member_start (fst (index_month i), snd (index_month i))"
      using valid[OF that] by (intro month_due_nonneg v c) simp_all
    then show ?thesis by (simp add: f2_def)
  qed
  have mono: "f1 (index_month i) \<le> f2 (index_month i)" if "i0 \<le> i" "i \<le> j2" for i
  proof -
    have "month_due cfg asof1 member_start (fst (index_month i), snd (index_month i))
          \<le> month_due cfg asof2 member_start (fst (index_month i), snd (index_month i))"
      using valid[OF that] by (intro month_due_mono v le c) simp_all
    then show ?thesis by (simp add: f1_def f2_def)
  qed
  have s2: "0 \<le> sum_list (map f2 (map index_month [i0..j2]))"
    by (rule sum_list_nonneg) (use nonneg in auto)
  have "d1 \<le> d2"
  proof (cases "date_less asof1 member_start")
    case True
    then show ?thesis using s2 by (simp add: d1_def d2_def)
  next
    case False
    then have n2: "\<not> date_less asof2 member_start"
      using le by (auto simp add: date_less_def)
    have "i0 \<le> j1" unfolding i0_def j1_def by (rule month_index_mono[OF v(3,1) False])
    then have split: "[i0..j2] = [i0..j1] @ [j1 + 1..j2]"
      using j by (rule upto_split2)
    have "sum_list (map f1 (map index_month [i0..j1]))
          \<le> sum_list (map f2 (map index_month [i0..j1]))"
      unfolding map_map by (rule sum_list_mono) (use mono j in auto)
    moreover have "0 \<le> sum_list (map f2 (map index_month [j1 + 1..j2]))"
      by (rule sum_list_nonneg) (use nonneg \<open>i0 \<le> j1\<close> in auto)
    ultimately show ?thesis
      using False n2 by (simp add: d1_def d2_def split)
  qed
  then show ?thesis using t1 t2 by blast
qed

lemma member_status_returns:
  assumes "valid_date asof" "valid_date member_start"
  shows "\<exists>d. due_total_as_of cfg asof member_start = Some (Inr d)
           \<and> member_status st cfg member_id member_start asof =
               Some (Inr \<lparr>due = d, paid = paid_total_as_of st member_id asof,
                          rest = max 0 (d - paid_total_as_of st member_id asof),
                          avance = max 0 (paid_total_as_of st member_id asof - d),
                          balance = Some (paid_total_as_of st member_id asof - d),
                          status = (if d \<le> paid_total_as_of st member_id asof
                                    then A_jour else En_retard)\<rparr>)"
proof -
  obtain d where d: "due_total_as_of cfg asof member_start = Some (Inr d)"
    using due_total_closed[OF assms, of cfg] by blast
  show ?thesis
    using d by (auto simp add: member_status_def Let_def max_def)
qed

lemma member_status_label:
  assumes "member_status st cfg member_id member_start asof = Some (Inr s)"
  shows "status s \<noteq> Desactive"
proof (cases "due_total_as_of cfg asof member_start")
  case None
  then show ?thesis using assms by (simp add: member_status_def)
next
  case (Some r)
  show ?thesis
  proof (cases r)
    case (Inl e)
    then show ?thesis using assms Some by (simp add: member_status_def)
  next
    case (Inr d)
    then have "status s = A_jour \<or> status s = En_retard"
      using assms Some by (auto simp add: member_status_def Let_def split: if_splits)
    then show ?thesis by auto
  qed
qed

lemma deactivate_keeps_rows:
  "map (\<lambda>r. r\<lparr>m_is_active := 0\<rparr>) (members (snd (admin_deactivate_member st admin member_id)))
   = map (\<lambda>r. r\<lparr>m_is_active := 0\<rparr>) (members st)"
proof (cases admin)
  case True
  have "(if m_id r = member_id then r\<lparr>m_is_active := 0\<rparr> else r)\<lparr>m_is_active := 0\<rparr>
        = r\<lparr>m_is_active := 0\<rparr>" for r :: member_row
    by simp
  then show ?thesis using True by (simp add: admin_deactivate_member_def comp_def)
next
  case False
  then show ?thesis by (simp add: admin_deactivate_member_def)
qed

lemma deactivate_clears_flag:
  assumes "r \<in> set (members (snd (admin_deactivate_member st True member_id)))"
    and "m_id r = member_id"
  shows "m_is_active r = 0"
proof -
  have "members (snd (admin_deactivate_member st True member_id))
        = map (\<lambda>m. if m_id m = member_id then m\<lparr>m_is_active := 0\<rparr> else m) (members st)"
    by (simp add: admin_deactivate_member_def)
  with assms(1) obtain m where
    r: "r = (if m_id m = member_id then m\<lparr>m_is_active := 0\<rparr> else m)"
    by (auto simp only: set_map)
  show ?thesis
  proof (cases "m_id m = member_id")
    case True
    then show ?thesis using r by simp
  next
    case False
    then show ?thesis using r assms(2) by simp
  qed
qed

section \<open>October 2025 for members of another enrollment month\<close>

text \<open>
  Claim C10. For every member whose enrollment month is not October 2025, also one
  enrolled before October 2025, \<^verbatim>\<open>due_for_month(2025, 10, asof, enrollment)\<close>
  returns 0 at every as-of date: neither the fixed fee nor a prorated daily amount is
  accrued for that month.
\<close>

theorem due_for_month_oct_2025_other_enrollment:
  "(year member_start, month member_start) \<noteq> (2025, 10) \<Longrightarrow>
   due_for_month cfg 2025 10 asof member_start = Inr 0"
  by (simp add: due_for_month_def)

theorem due_for_month_oct_2025_other_enrollment_witness:
  "(year (mk_date 2025 9 10), month (mk_date 2025 9 10)) \<noteq> (2025, 10)
   \<and> due_for_month default_config 2025 10 (mk_date 2025 12 31) (mk_date 2025 9 10) = Inr 0"
  using due_for_month_oct_2025_other_enrollment
          [of "mk_date 2025 9 10" default_config "mk_date 2025 12 31"]
  by (simp add: mk_date_def)

section \<open>The fixed fee of October 2025\<close>

text \<open>
  Claim C1, as stated: with the default settings and a member enrolled on 2025-10-15 the
  total due is 0 on 2025-10-20, 30000 on 2025-10-31 and still 30000 on 2025-11-01. The
  last value fails: on 2025-11-01 the total is not 30000.
\<close>

theorem due_total_special_month_step_counterexample:
  "due_total_as_of default_config (mk_date 2025 11 1) (mk_date 2025 10 15) \<noteq> Some (Inr 30000)"
  by code_simp

text \<open>
  Claim C1, amended: with the default settings and a member enrolled on 2025-10-15 the
  total due is 0 on 2025-10-20 and 30000 on 2025-10-31 (the fixed fee is recognised at the
  end of October only), and 32000 on 2025-11-01: the fixed fee, to which nothing is added
  for October, plus 2000 for the first day of November.
\<close>

theorem due_total_special_month_step:
  "due_total_as_of default_config (mk_date 2025 10 20) (mk_date 2025 10 15) = Some (Inr 0)
   \<and> due_total_as_of default_config (mk_date 2025 10 31) (mk_date 2025 10 15) = Some (Inr 30000)
   \<and> due_total_as_of default_config (mk_date 2025 11 1) (mk_date 2025 10 15) = Some (Inr 32000)"
  by code_simp

section \<open>Prorated and capped months\<close>

text \<open>
  Claim C3. For every month other than October 2025, at or after the member's enrollment
  month, \<^verbatim>\<open>due_for_month\<close> returns the smaller of the monthly cap and the daily amount
  times the number of days of that month that lie between the enrollment date and the
  as-of date, both included, and 0 when there is no such day. For the default member the
  total is 90000 on 2025-11-30 and 60000 on 2025-11-15.
\<close>

theorem due_for_month_prorated_capped:
  "(\<forall>cfg yr mo asof member_start.
      valid_date asof \<longrightarrow> valid_date member_start \<longrightarrow>
      1 \<le> yr \<longrightarrow> yr \<le> 9999 \<longrightarrow> 1 \<le> mo \<longrightarrow> mo \<le> 12 \<longrightarrow>
      \<not> (yr = 2025 \<and> mo = 10) \<longrightarrow>
      \<not> ym_less (yr, mo) (year member_start, month member_start) \<longrightarrow>
      due_for_month cfg yr mo asof member_start =
        Inr (if window_day_count yr mo asof member_start = 0 then 0
             else min (monthly_cap cfg)
                      (daily_amount cfg * window_day_count yr mo asof member_start)))
   \<and> due_total_as_of default_config (mk_date 2025 11 30) (mk_date 2025 10 15) = Some (Inr 90000)
   \<and> due_total_as_of default_config (mk_date 2025 11 15) (mk_date 2025 10 15) = Some (Inr 60000)"
proof (intro conjI allI impI)
  fix cfg yr mo asof member_start
  assume v: "valid_date asof" "valid_date member_start"
    and y: "1 \<le> yr" "yr \<le> 9999" and m: "1 \<le> mo" "mo \<le> 12"
    and ns: "\<not> (yr = 2025 \<and> mo = 10)"
    and af: "\<not> ym_less (yr, mo) (year member_start, month member_start)"
  show "due_for_month cfg yr mo asof member_start =
        Inr (if window_day_count yr mo asof member_start = 0 then 0
             else min (monthly_cap cfg)
                      (daily_amount cfg * window_day_count yr mo asof member_start))"
    unfolding due_for_month_general[OF v y m af ns] window_day_count_ordinals[OF v y m]
    by (simp add: Let_def)
next
  show "due_total_as_of default_config (mk_date 2025 11 30) (mk_date 2025 10 15) = Some (Inr 90000)"
    by code_simp
next
  show "due_total_as_of default_config (mk_date 2025 11 15) (mk_date 2025 10 15) = Some (Inr 60000)"
    by code_simp
qed

theorem due_for_month_prorated_capped_witness:
  "valid_date (mk_date 2025 11 15) \<and> valid_date (mk_date 2025 10 15)
   \<and> (1::int) \<le> 2025 \<and> (2025::int) \<le> 9999 \<and> (1::int) \<le> 11 \<and> (11::int) \<le> 12
   \<and> \<not> ((2025::int) = 2025 \<and> (11::int) = 10)
   \<and> \<not> ym_less (2025, 11) (year (mk_date 2025 10 15), month (mk_date 2025 10 15))
   \<and> window_day_count 2025 11 (mk_date 2025 11 15) (mk_date 2025 10 15) = 15
   \<and> due_for_month default_config 2025 11 (mk_date 2025 11 15) (mk_date 2025 10 15) = Inr 30000"
proof -
  have h1: "valid_date (mk_date 2025 11 15)" and h2: "valid_date (mk_date 2025 10 15)"
    by code_simp+
  have h3: "\<not> ((2025::int) = 2025 \<and> (11::int) = 10)" by simp
  have h4: "\<not> ym_less (2025, 11) (year (mk_date 2025 10 15), month (mk_date 2025 10 15))"
    by code_simp
  have w: "window_day_count 2025 11 (mk_date 2025 11 15) (mk_date 2025 10 15) = 15"
    by code_simp
  have "due_for_month default_config 2025 11 (mk_date 2025 11 15) (mk_date 2025 10 15) =
        Inr (if window_day_count 2025 11 (mk_date 2025 11 15) (mk_date 2025 10 15) = 0 then 0
             else min (monthly_cap default_config)
                      (daily_amount default_config
                       * window_day_count 2025 11 (mk_date 2025 11 15) (mk_date 2025 10 15)))"
    using due_for_month_prorated_capped h1 h2 h3 h4 by simp
  then have "due_for_month default_config 2025 11 (mk_date 2025 11 15) (mk_date 2025 10 15)
             = Inr 30000"
    unfolding w by (simp add: default_config_def)
  then show ?thesis using h1 h2 h4 w by simp
qed

section \<open>Monotonicity of the total due\<close>

text \<open>
  Claim C4. For a fixed enrollment date and fixed settings (amounts not negative, as the
  settings form enforces), \<^verbatim>\<open>due_total_as_of\<close> returns for all valid dates, and the
  total at a later as-of date is at least the total at an earlier one; the total is 0 at
  every as-of date strictly before the enrollment date.
\<close>

theorem due_total_monotone:
  "(valid_date asof1 \<and> valid_date asof2 \<and> valid_date member_start
    \<and> 0 \<le> daily_amount cfg \<and> 0 \<le> monthly_cap cfg \<and> 0 \<le> oct_2025_fixed cfg
    \<and> date_less asof1 asof2 \<longrightarrow>
      (\<exists>d1 d2. due_total_as_of cfg asof1 member_start = Some (Inr d1)
               \<and> due_total_as_of cfg asof2 member_start = Some (Inr d2) \<and> d1 \<le> d2))
   \<and> (date_less asof1 member_start \<longrightarrow>
        due_total_as_of cfg asof1 member_start = Some (Inr 0))"
proof (intro conjI impI)
  assume a: "valid_date asof1 \<and> valid_date asof2 \<and> valid_date member_start
    \<and> 0 \<le> daily_amount cfg \<and> 0 \<le> monthly_cap cfg \<and> 0 \<le> oct_2025_fixed cfg
    \<and> date_less asof1 asof2"
  then have "\<not> date_less asof2 asof1" by (auto simp add: date_less_def)
  with a show "\<exists>d1 d2. due_total_as_of cfg asof1 member_start = Some (Inr d1)
               \<and> due_total_as_of cfg asof2 member_start = Some (Inr d2) \<and> d1 \<le> d2"
    by (intro due_total_mono) simp_all
next
  assume "date_less asof1 member_start"
  then show "due_total_as_of cfg asof1 member_start = Some (Inr 0)"
    by (simp add: due_total_as_of_def)
qed

theorem due_total_monotone_witness:
  "valid_date (mk_date 2025 10 20) \<and> valid_date (mk_date 2025 11 15)
   \<and> valid_date (mk_date 2025 10 15)
   \<and> 0 \<le> daily_amount default_config \<and> 0 \<le> monthly_cap default_config
   \<and> 0 \<le> oct_2025_fixed default_config
   \<and> date_less (mk_date 2025 10 20) (mk_date 2025 11 15)
   \<and> (\<exists>d1 d2. due_total_as_of default_config (mk_date 2025 10 20) (mk_date 2025 10 15)
                 = Some (Inr d1)
               \<and> due_total_as_of default_config (mk_date 2025 11 15) (mk_date 2025 10 15)
                 = Some (Inr d2) \<and> d1 \<le> d2)
   \<and> date_less (mk_date 2025 10 10) (mk_date 2025 10 15)
   \<and> due_total_as_of default_config (mk_date 2025 10 10) (mk_date 2025 10 15) = Some (Inr 0)"
proof -
  have h: "valid_date (mk_date 2025 10 20) \<and> valid_date (mk_date 2025 11 15)
     \<and> valid_date (mk_date 2025 10 15)
     \<and> 0 \<le> daily_amount default_config \<and> 0 \<le> monthly_cap default_config
     \<and> 0 \<le> oct_2025_fixed default_config
     \<and> date_less (mk_date 2025 10 20) (mk_date 2025 11 15)"
    by code_simp
  have k: "date_less (mk_date 2025 10 10) (mk_date 2025 10 15)" by code_simp
  note m = due_total_monotone[of "mk_date 2025 10 20" "mk_date 2025 11 15" "mk_date 2025 10 15"
             default_config, THEN conjunct1, rule_format, OF h]
  note z = due_total_monotone[of "mk_date 2025 10 10" "mk_date 2025 10 10" "mk_date 2025 10 15"
             default_config, THEN conjunct2, rule_format, OF k]
  show ?thesis using h k m z by blast
qed

section \<open>The balance of a member\<close>

text \<open>
  Claim C5, as stated: for every member and as-of date the status has
  \<open>rest = max(0, due - paid)\<close>, \<open>avance = max(0, paid - due)\<close>,
  \<open>rest - avance = paid - due\<close>, and at most one of \<open>rest\<close> and \<open>avance\<close> is not zero.
  The third equation fails: for a member enrolled on 2025-12-01 without payments, on that
  day \<open>rest - avance\<close> is 2000 and \<open>paid - due\<close> is -2000.
\<close>

theorem member_status_balance_counterexample:
  "member_status empty_store default_config 1 (mk_date 2025 12 1) (mk_date 2025 12 1)
     = Some (Inr \<lparr>due = 2000, paid = 0, rest = 2000, avance = 0,
                   balance = Some (- 2000), status = En_retard\<rparr>)
   \<and> (2000::int) - 0 \<noteq> 0 - 2000"
  by code_simp

text \<open>
  Claim C5, amended: for every member and every valid as-of and enrollment date
  \<^verbatim>\<open>member_status\<close> returns a status with \<open>rest = max(0, due - paid)\<close>,
  \<open>avance = max(0, paid - due)\<close>, \<open>rest - avance = due - paid\<close> (the sign of the
  stated identity reversed), and at most one of \<open>rest\<close> and \<open>avance\<close> is not zero.
\<close>

theorem member_status_balance:
  "valid_date asof \<Longrightarrow> valid_date member_start \<Longrightarrow>
   \<exists>s. member_status st cfg member_id member_start asof = Some (Inr s)
      \<and> due_total_as_of cfg asof member_start = Some (Inr (due s))
      \<and> paid s = paid_total_as_of st member_id asof
      \<and> rest s = max 0 (due s - paid s)
      \<and> avance s = max 0 (paid s - due s)
      \<and> rest s - avance s = due s - paid s
      \<and> (rest s = 0 \<or> avance s = 0)"
proof -
  assume v: "valid_date asof" "valid_date member_start"
  obtain d where d: "due_total_as_of cfg asof member_start = Some (Inr d)"
    and s: "member_status st cfg member_id member_start asof =
               Some (Inr \<lparr>due = d, paid = paid_total_as_of st member_id asof,
                          rest = max 0 (d - paid_total_as_of st member_id asof),
                          avance = max 0 (paid_total_as_of st member_id asof - d),
                          balance = Some (paid_total_as_of st member_id asof - d),
                          status = (if d \<le> paid_total_as_of st member_id asof
                                    then A_jour else En_retard)\<rparr>)"
    using member_status_returns[OF v, of cfg st member_id] by blast
  show ?thesis
    unfolding s using d by (simp add: max_def)
qed

theorem member_status_balance_witness:
  "valid_date (mk_date 2025 11 15) \<and> valid_date (mk_date 2025 10 15)
   \<and> (\<exists>s. member_status ledger_store default_config 1 (mk_date 2025 10 15) (mk_date 2025 11 15)
             = Some (Inr s)
         \<and> due_total_as_of default_config (mk_date 2025 11 15) (mk_date 2025 10 15)
             = Some (Inr (due s))
         \<and> paid s = paid_total_as_of ledger_store 1 (mk_date 2025 11 15)
         \<and> rest s = max 0 (due s - paid s)
         \<and> avance s = max 0 (paid s - due s)
         \<and> rest s - avance s = due s - paid s
         \<and> (rest s = 0 \<or> avance s = 0))"
proof -
  have h1: "valid_date (mk_date 2025 11 15)" and h2: "valid_date (mk_date 2025 10 15)"
    by code_simp+
  show ?thesis
    using h1 h2 member_status_balance[OF h1 h2, of ledger_store default_config 1] by blast
qed

section \<open>Time frozen at the stop date\<close>

text \<open>
  Claim C6. When a stop date is set, the as-of date of every calculation is
  \<open>min(today, stop_date)\<close>: on any day after the stop date the as-of date is the stop
  date, so the total due and the status the member page shows are those of the stop
  date. With the stop date 2025-11-20 the total due on 2025-12-31 is that of 2025-11-20.
\<close>

theorem as_of_date_frozen:
  "project_end_date cfg = Some stop \<longrightarrow>
     as_of_date cfg today = date_min today stop
     \<and> (date_less stop today \<longrightarrow>
          as_of_date cfg today = stop
          \<and> due_total_as_of cfg (as_of_date cfg today) member_start
              = due_total_as_of cfg stop member_start
          \<and> member_status st cfg member_id member_start (as_of_date cfg today)
              = member_status st cfg member_id member_start stop
          \<and> admin_member st cfg admin today member_id
              = admin_member st cfg admin stop member_id)"
proof (intro impI conjI)
  assume e: "project_end_date cfg = Some stop"
  then show m: "as_of_date cfg today = date_min today stop"
    by (simp add: as_of_date_def)
  have s: "as_of_date cfg stop = stop"
    using e by (simp add: as_of_date_def date_min_def)
  assume "date_less stop today"
  then show a: "as_of_date cfg today = stop"
    using m by (simp add: date_min_def)
  then show "due_total_as_of cfg (as_of_date cfg today) member_start
              = due_total_as_of cfg stop member_start"
    and "member_status st cfg member_id member_start (as_of_date cfg today)
              = member_status st cfg member_id member_start stop"
    by simp_all
  show "admin_member st cfg admin today member_id = admin_member st cfg admin stop member_id"
    using a s by (simp add: admin_member_def)
qed

theorem as_of_date_frozen_witness:
  "project_end_date stopped_config = Some (mk_date 2025 11 20)
   \<and> date_less (mk_date 2025 11 20) (mk_date 2025 12 31)
   \<and> as_of_date stopped_config (mk_date 2025 12 31) = mk_date 2025 11 20
   \<and> due_total_as_of stopped_config (as_of_date stopped_config (mk_date 2025 12 31))
        (mk_date 2025 10 15)
      = due_total_as_of stopped_config (mk_date 2025 11 20) (mk_date 2025 10 15)
   \<and> due_total_as_of stopped_config (mk_date 2025 11 20) (mk_date 2025 10 15)
      = Some (Inr 70000)
   \<and> admin_member ledger_store stopped_config True (mk_date 2025 12 31) 1
      = admin_member ledger_store stopped_config True (mk_date 2025 11 20) 1"
proof -
  have h: "project_end_date stopped_config = Some (mk_date 2025 11 20)"
    by (simp add: stopped_config_def)
  have l: "date_less (mk_date 2025 11 20) (mk_date 2025 12 31)" by code_simp
  have d: "due_total_as_of stopped_config (mk_date 2025 11 20) (mk_date 2025 10 15)
           = Some (Inr 70000)" by code_simp
  note t = as_of_date_frozen[of stopped_config "mk_date 2025 11 20" "mk_date 2025 12 31"
                               "mk_date 2025 10 15" ledger_store 1 True, rule_format, OF h]
  from t l have
    "as_of_date stopped_config (mk_date 2025 12 31) = mk_date 2025 11 20"
    "due_total_as_of stopped_config (as_of_date stopped_config (mk_date 2025 12 31))
        (mk_date 2025 10 15)
      = due_total_as_of stopped_config (mk_date 2025 11 20) (mk_date 2025 10 15)"
    "admin_member ledger_store stopped_config True (mk_date 2025 12 31) 1
      = admin_member ledger_store stopped_config True (mk_date 2025 11 20) 1"
    by blast+
  with h l d show ?thesis by blast
qed

section \<open>Deactivated members\<close>

text \<open>
  Claim C8. For every member whose active flag is not set, the status of the dashboard
  row and of the member page has due, paid, rest and avance 0 and the label of a
  deactivated member, which no active member has, whatever the payments and the
  enrollment date of the member; deactivation keeps every payment, every deposit and
  every member row, and changes the flag of the member only.
\<close>

theorem inactive_member_status:
  "(m_is_active m \<noteq> 1 \<longrightarrow>
      row_status st cfg asof m = Some (Inr inactive_status)
      \<and> (find (\<lambda>r. m_id r = member_id) (members st) = Some m \<longrightarrow>
           admin_member st cfg True today member_id = Some (Inr (Fiche inactive_status))))
   \<and> due inactive_status = 0 \<and> paid inactive_status = 0
   \<and> rest inactive_status = 0 \<and> avance inactive_status = 0
   \<and> status inactive_status = Desactive
   \<and> (m_is_active m = 1 \<longrightarrow> row_status st cfg asof m = Some (Inr s) \<longrightarrow> status s \<noteq> Desactive)
   \<and> payments (snd (admin_deactivate_member st admin member_id)) = payments st
   \<and> bank_deposits (snd (admin_deactivate_member st admin member_id)) = bank_deposits st
   \<and> map (\<lambda>r. r\<lparr>m_is_active := 0\<rparr>) (members (snd (admin_deactivate_member st admin member_id)))
      = map (\<lambda>r. r\<lparr>m_is_active := 0\<rparr>) (members st)
   \<and> (\<forall>r \<in> set (members (snd (admin_deactivate_member st True member_id))).
         m_id r = member_id \<longrightarrow> m_is_active r = 0)"
proof -
  have a: "row_status st cfg asof m = Some (Inr inactive_status)" if "m_is_active m \<noteq> 1"
    using that by (simp add: row_status_def)
  have b: "admin_member st cfg True today member_id = Some (Inr (Fiche inactive_status))"
    if "m_is_active m \<noteq> 1" "find (\<lambda>r. m_id r = member_id) (members st) = Some m"
    using that by (simp add: admin_member_def row_status_def)
  have c: "due inactive_status = 0" "paid inactive_status = 0" "rest inactive_status = 0"
    "avance inactive_status = 0" "status inactive_status = Desactive"
    by (simp_all add: inactive_status_def)
  have d: "status s \<noteq> Desactive"
    if "m_is_active m = 1" "row_status st cfg asof m = Some (Inr s)"
    using that member_status_label[of st cfg "m_id m" "m_start_date m" asof s]
    by (simp add: row_status_def)
  have e: "payments (snd (admin_deactivate_member st admin member_id)) = payments st"
    "bank_deposits (snd (admin_deactivate_member st admin member_id)) = bank_deposits st"
    by (simp_all add: admin_deactivate_member_def)
  show ?thesis
  proof (intro conjI impI ballI)
    assume i: "m_is_active m \<noteq> 1"
    then show "row_status st cfg asof m = Some (Inr inactive_status)" by (rule a)
    assume "find (\<lambda>r. m_id r = member_id) (members st) = Some m"
    with i show "admin_member st cfg True today member_id = Some (Inr (Fiche inactive_status))"
      by (rule b)
  next
    assume "m_is_active m = 1" "row_status st cfg asof m = Some (Inr s)"
    then show "status s \<noteq> Desactive" by (rule d)
  next
    fix r
    assume "r \<in> set (members (snd (admin_deactivate_member st True member_id)))"
      "m_id r = member_id"
    then show "m_is_active r = 0" by (rule deactivate_clears_flag)
  qed (rule c e deactivate_keeps_rows)+
qed

theorem inactive_member_status_witness:
  "m_is_active (members ledger_store ! 1) \<noteq> 1
   \<and> find (\<lambda>r. m_id r = 2) (members ledger_store) = Some (members ledger_store ! 1)
   \<and> paid_total_as_of ledger_store 2 (mk_date 2025 12 31) = 30000
   \<and> row_status ledger_store default_config (mk_date 2025 12 31) (members ledger_store ! 1)
      = Some (Inr inactive_status)
   \<and> admin_member ledger_store default_config True (mk_date 2025 12 31) 2
      = Some (Inr (Fiche inactive_status))
   \<and> m_id (members (snd (admin_deactivate_member ledger_store True 1)) ! 0) = 1
   \<and> m_is_active (members (snd (admin_deactivate_member ledger_store True 1)) ! 0) = 0"
proof -
  have h1: "m_is_active (members ledger_store ! 1) \<noteq> 1" by code_simp
  have h2: "find (\<lambda>r. m_id r = 2) (members ledger_store) = Some (members ledger_store ! 1)"
    by code_simp
  have h3: "paid_total_as_of ledger_store 2 (mk_date 2025 12 31) = 30000" by code_simp
  note t = inactive_member_status[of "members ledger_store ! 1" ledger_store default_config
             "mk_date 2025 12 31" 2 "mk_date 2025 12 31" inactive_status True]
  note u = inactive_member_status[of "members ledger_store ! 1" ledger_store default_config
             "mk_date 2025 12 31" 1 "mk_date 2025 12 31" inactive_status True]
  have a: "row_status ledger_store default_config (mk_date 2025 12 31) (members ledger_store ! 1)
      = Some (Inr inactive_status)"
    using t[THEN conjunct1, rule_format, OF h1] by (rule conjunct1)
  have b: "admin_member ledger_store default_config True (mk_date 2025 12 31) 2
      = Some (Inr (Fiche inactive_status))"
    using t[THEN conjunct1, rule_format, OF h1, THEN conjunct2, rule_format, OF h2] .
  have c: "\<forall>r \<in> set (members (snd (admin_deactivate_member ledger_store True 1))).
         m_id r = 1 \<longrightarrow> m_is_active r = 0"
    using u by (elim conjE)
  have k: "members (snd (admin_deactivate_member ledger_store True 1)) ! 0
           \<in> set (members (snd (admin_deactivate_member ledger_store True 1)))"
    and i: "m_id (members (snd (admin_deactivate_member ledger_store True 1)) ! 0) = 1"
    by code_simp+
  have z: "m_is_active (members (snd (admin_deactivate_member ledger_store True 1)) ! 0) = 0"
    using c k i by blast
  show ?thesis by (intro conjI h1 h2 h3 a b i z)
qed

section \<open>The guard of bank deposits\<close>

text \<open>
  Claim C2. A bank deposit with a positive amount and a valid date is inserted if and
  only if the amount is at most \<open>available = max(0, collected - deposited)\<close>, computed
  at the as-of date when the request is handled; a larger amount is rejected, the
  rejection carries the computed \<open>available\<close>, and the store is unchanged. With 100000
  collected and 40000 deposited, a deposit of 60000 is inserted and a deposit of 60001
  is rejected with \<open>available = 60000\<close>.
\<close>

theorem bank_deposit_guard:
  "(0 < amount \<longrightarrow>
      (amount \<le> max 0 (total_collected_as_of st (as_of_date cfg today)
                        - total_deposited_as_of st (as_of_date cfg today)) \<longrightarrow>
         admin_add_bank_deposit st cfg True today (Some d) amount reference note mois annee now
         = (Redirect_comptabilite (if mois = 0 then month d else mois)
                                  (if annee = 0 then year d else annee),
            st\<lparr>bank_deposits := bank_deposits st @
                 [\<lparr>d_dep_date = d, d_amount = amount, d_reference = strip reference,
                   d_note = strip note, d_created_at = now\<rparr>]\<rparr>))
      \<and> (max 0 (total_collected_as_of st (as_of_date cfg today)
                 - total_deposited_as_of st (as_of_date cfg today)) < amount \<longrightarrow>
         admin_add_bank_deposit st cfg True today (Some d) amount reference note mois annee now
         = (Err_solde (max 0 (total_collected_as_of st (as_of_date cfg today)
                              - total_deposited_as_of st (as_of_date cfg today))), st)))
   \<and> (total_collected_as_of st (as_of_date cfg today) = 100000
       \<and> total_deposited_as_of st (as_of_date cfg today) = 40000 \<longrightarrow>
         admin_add_bank_deposit st cfg True today (Some d) 60000 reference note mois annee now
         = (Redirect_comptabilite (if mois = 0 then month d else mois)
                                  (if annee = 0 then year d else annee),
            st\<lparr>bank_deposits := bank_deposits st @
                 [\<lparr>d_dep_date = d, d_amount = 60000, d_reference = strip reference,
                   d_note = strip note, d_created_at = now\<rparr>]\<rparr>)
         \<and> admin_add_bank_deposit st cfg True today (Some d) 60001 reference note mois annee now
           = (Err_solde 60000, st))"
  by (auto simp add: admin_add_bank_deposit_def Let_def max_def)

theorem bank_deposit_guard_witness:
  "total_collected_as_of ledger_store (as_of_date default_config (mk_date 2025 11 10)) = 100000
   \<and> total_deposited_as_of ledger_store (as_of_date default_config (mk_date 2025 11 10)) = 40000
   \<and> admin_add_bank_deposit ledger_store default_config True (mk_date 2025 11 10)
        (Some (mk_date 2025 11 10)) 60000 '''' '''' 0 0 ''2025-11-10T12:00:00''
      = (Redirect_comptabilite 11 2025,
         ledger_store\<lparr>bank_deposits := bank_deposits ledger_store @
            [\<lparr>d_dep_date = mk_date 2025 11 10, d_amount = 60000, d_reference = '''',
              d_note = '''', d_created_at = ''2025-11-10T12:00:00''\<rparr>]\<rparr>)
   \<and> admin_add_bank_deposit ledger_store default_config True (mk_date 2025 11 10)
        (Some (mk_date 2025 11 10)) 60001 '''' '''' 0 0 ''2025-11-10T12:00:00''
      = (Err_solde 60000, ledger_store)"
proof -
  have c: "total_collected_as_of ledger_store (as_of_date default_config (mk_date 2025 11 10))
           = 100000"
    and d: "total_deposited_as_of ledger_store (as_of_date default_config (mk_date 2025 11 10))
           = 40000"
    by code_simp+
  have s: "strip '''' = ''''" by code_simp
  have m: "month (mk_date 2025 11 10) = 11" "year (mk_date 2025 11 10) = 2025"
    by (simp_all add: mk_date_def)
  note t = bank_deposit_guard[of 60000 ledger_store default_config "mk_date 2025 11 10"
             "mk_date 2025 11 10" "''''" "''''" 0 0 "''2025-11-10T12:00:00''",
             THEN conjunct2, rule_format, OF conjI[OF c d]]
  show ?thesis using c d t by (simp add: s m)
qed

section \<open>Payments of unknown members\<close>

text \<open>
  Claim C9 says that a payment naming a member that is not in the store is rejected and
  no row is inserted. The code inserts it: on a store without members, a payment for
  the member 999 is added to the table by \<^verbatim>\<open>admin_add_payment\<close> and by
  \<^verbatim>\<open>admin_compta_add\<close>, and both answer with their redirection.
\<close>

theorem add_payment_unknown_member:
  "members empty_store = []
   \<and> admin_add_payment empty_store True 999 (Some (mk_date 2025 11 1)) 1000 ''cash'' '''' ''''
        ''2025-11-01T10:00:00''
      = (Redirect_member 999,
         empty_store\<lparr>payments :=
           [\<lparr>p_member_id = 999, p_pay_date = mk_date 2025 11 1, p_amount = 1000,
             p_mode = ''cash'', p_reference = '''', p_note = '''',
             p_created_at = ''2025-11-01T10:00:00''\<rparr>]\<rparr>)
   \<and> admin_compta_add empty_store True (Some (mk_date 2025 11 1)) 999 1000 ''cash'' '''' ''''
        0 0 ''2025-11-01T10:00:00''
      = (Redirect_comptabilite 11 2025,
         empty_store\<lparr>payments :=
           [\<lparr>p_member_id = 999, p_pay_date = mk_date 2025 11 1, p_amount = 1000,
             p_mode = ''cash'', p_reference = '''', p_note = '''',
             p_created_at = ''2025-11-01T10:00:00''\<rparr>]\<rparr>)"
  by code_simp

end
